theory Spec2Isabelle
  imports Complex_Main "HOL-Library.Multiset" "HOL-Library.Char_ord" "HOL-Library.List_Lexorder"
begin

unbundle bit_operations_syntax

section \<open>Errors, panics and machine integers\<close>

text \<open>
  The error values the program returns (each \<^verbatim>\<open>fmt.Errorf\<close> of the source is one
  constructor), and the three ways a call can fail to hand back a result: a returned
  error, a panic, or a loop that never ends.
\<close>

datatype error =
    BadModeLine string
  | ScanProfiles string
  | InconsistentNumStmt int int
  | LoadPackages string
  | PackageRequired
  | FilePathError string
  | ReadFileError string
  | WriteError string

datatype failure = Returned error | Panicked | Diverged

text \<open>
  Go's \<^verbatim>\<open>int\<close> is taken as 64 bits wide. Values are mathematical integers; where the
  source adds, the two's complement wrap-around is written out with \<open>wrap64\<close>.
\<close>

definition max_int :: int where
  "max_int = 9223372036854775807"

definition min_int :: int where
  "min_int = - 9223372036854775808"

definition wrap64 :: "int \<Rightarrow> int" where
  "wrap64 x = (x + 9223372036854775808) mod 18446744073709551616 - 9223372036854775808"

section \<open>The profile data model (profile.go)\<close>

record ProfileBlock =
  StartLine :: int
  StartCol :: int
  EndLine :: int
  EndCol :: int
  NumStmt :: int
  Count :: int

record Profile =
  FileName :: string
  Mode :: string
  Blocks :: "ProfileBlock list"

text \<open>
  \<^verbatim>\<open>files map[string]*Profile\<close>: an association list with one entry per file name, in
  the order the names were first seen. (Go leaves the iteration order of a map open; the
  order only decides which of several inconsistent files is reported.)
\<close>

type_synonym files = "(string \<times> Profile) list"

section \<open>strconv.Atoi and toInt\<close>

definition is_digit :: "char \<Rightarrow> bool" where
  "is_digit c = (let n = (of_char c :: nat) in 48 \<le> n \<and> n \<le> 57)"

definition digit_val :: "char \<Rightarrow> int" where
  "digit_val c = int (of_char c) - 48"

definition digits_value :: "string \<Rightarrow> int" where
  "digits_value s = foldl (\<lambda>a c. a * 10 + digit_val c) 0 s"

text \<open>
  \<^verbatim>\<open>strconv.Atoi\<close>: an optional sign, then one or more decimal digits; \<open>None\<close> is
  its error result (a syntax error, or a value outside the 64-bit range).
\<close>

definition Atoi :: "string \<Rightarrow> int option" where
  "Atoi s0 =
     (let neg = (case s0 of [] \<Rightarrow> False | c # _ \<Rightarrow> c = CHR ''-'');
          s = (case s0 of [] \<Rightarrow> [] | c # cs \<Rightarrow> if c = CHR ''-'' \<or> c = CHR ''+'' then cs else s0)
      in if s = [] then None
         else if list_all is_digit s then
           (let v = (if neg then - digits_value s else digits_value s)
            in if min_int \<le> v \<and> v \<le> max_int then Some v else None)
         else None)"

definition toInt :: "string \<Rightarrow> failure + int" where
  "toInt s = (case Atoi s of None \<Rightarrow> Inl Panicked | Some i \<Rightarrow> Inr i)"

section \<open>The block-line pattern lineRe\<close>

text \<open>
  \<^verbatim>\<open>^(.+):([0-9]+).([0-9]+),([0-9]+).([0-9]+) ([0-9]+) ([0-9]+)$\<close> as a list of items.
  \<open>Group p\<close> is a capture group of one or more bytes satisfying \<open>p\<close>, greedy; \<open>Lit c\<close>
  is the byte \<open>c\<close>; \<open>AnyRune\<close> is the unescaped dot outside a group: one UTF-8 encoded
  rune other than a newline. The matcher tries the longest repetition first and
  backtracks, which is the leftmost-first result Go's regexp package returns.
\<close>

datatype item = Group "char \<Rightarrow> bool" | Lit char | AnyRune

definition not_newline :: "char \<Rightarrow> bool" where
  "not_newline c = (c \<noteq> CHR 0x0A)"

definition is_cont :: "nat \<Rightarrow> nat \<Rightarrow> string \<Rightarrow> nat \<Rightarrow> bool" where
  "is_cont lo hi s k = (k < length s \<and> lo \<le> (of_char (s ! k) :: nat) \<and> (of_char (s ! k) :: nat) \<le> hi)"

text \<open>
  The number of bytes \<^verbatim>\<open>utf8.DecodeRuneInString\<close> consumes at the head of a non-empty
  string: the length of a well-formed encoding, and 1 for anything else.
\<close>

definition rune_width :: "string \<Rightarrow> nat" where
  "rune_width s =
     (let b = (of_char (hd s) :: nat) in
      if b < 128 then 1
      else if 194 \<le> b \<and> b \<le> 223 then (if is_cont 128 191 s 1 then 2 else 1)
      else if 224 \<le> b \<and> b \<le> 239 then
        (if is_cont (if b = 224 then 160 else 128) (if b = 237 then 159 else 191) s 1
            \<and> is_cont 128 191 s 2 then 3 else 1)
      else if 240 \<le> b \<and> b \<le> 244 then
        (if is_cont (if b = 240 then 144 else 128) (if b = 244 then 143 else 191) s 1
            \<and> is_cont 128 191 s 2 \<and> is_cont 128 191 s 3 then 4 else 1)
      else 1)"

fun first_some :: "'a option list \<Rightarrow> 'a option" where
  "first_some [] = None"
| "first_some (None # xs) = first_some xs"
| "first_some (Some x # xs) = Some x"

fun match_items :: "item list \<Rightarrow> string \<Rightarrow> string list option" where
  "match_items [] s = (if s = [] then Some [] else None)"
| "match_items (Lit c # its) s =
     (case s of [] \<Rightarrow> None | d # ds \<Rightarrow> if d = c then match_items its ds else None)"
| "match_items (AnyRune # its) s =
     (case s of [] \<Rightarrow> None
      | d # ds \<Rightarrow> if not_newline d then match_items its (drop (rune_width s) s) else None)"
| "match_items (Group p # its) s =
     first_some (map (\<lambda>n. map_option ((#) (take n s)) (match_items its (drop n s)))
                     (rev [1..<Suc (length (takeWhile p s))]))"

definition lineRe :: "item list" where
  "lineRe = [Group not_newline, Lit CHR '':'', Group is_digit, AnyRune, Group is_digit,
             Lit CHR '','', Group is_digit, AnyRune, Group is_digit, Lit CHR '' '',
             Group is_digit, Lit CHR '' '', Group is_digit]"

text \<open>\<^verbatim>\<open>lineRe.FindStringSubmatch\<close>: the seven captured groups, or \<open>None\<close> for nil.\<close>

definition FindStringSubmatch :: "string \<Rightarrow> string list option" where
  "FindStringSubmatch line = match_items lineRe line"

section \<open>parseLine and the scan of the input\<close>

text \<open>
  \<^verbatim>\<open>ignore.Match(name, data)\<close> belongs to the Ignore type, which is declared in a file
  that is not part of the sources at hand; it is taken as a parameter \<open>ign\<close>, with
  \<open>None\<close> for nil data.
\<close>

type_synonym ignore = "string \<Rightarrow> string option \<Rightarrow> bool"

definition and_then :: "failure + 'a \<Rightarrow> ('a \<Rightarrow> failure + 'b) \<Rightarrow> failure + 'b" where
  "and_then r f = (case r of Inl e \<Rightarrow> Inl e | Inr x \<Rightarrow> f x)"

text \<open>The block literal of parseLine: the six conversions run in field order.\<close>

definition newBlock :: "string \<Rightarrow> string \<Rightarrow> string \<Rightarrow> string \<Rightarrow> string \<Rightarrow> string \<Rightarrow> failure + ProfileBlock" where
  "newBlock sl sc el ec ns cn =
     and_then (toInt sl) (\<lambda>a.
     and_then (toInt sc) (\<lambda>b.
     and_then (toInt el) (\<lambda>c.
     and_then (toInt ec) (\<lambda>d.
     and_then (toInt ns) (\<lambda>e.
     and_then (toInt cn) (\<lambda>g.
       Inr \<lparr>StartLine = a, StartCol = b, EndLine = c, EndCol = d, NumStmt = e, Count = g\<rparr>))))))"

text \<open>
  The profile of \<open>filename\<close> gets the block appended; the profile is created, with the
  current mode, when the name is new.
\<close>

fun appendBlock :: "string \<Rightarrow> string \<Rightarrow> ProfileBlock \<Rightarrow> files \<Rightarrow> files" where
  "appendBlock mode filename blk [] =
     [(filename, \<lparr>FileName = filename, Mode = mode, Blocks = [blk]\<rparr>)]"
| "appendBlock mode filename blk ((k, p) # fs) =
     (if k = filename then (k, p\<lparr>Blocks := Blocks p @ [blk]\<rparr>) # fs
      else (k, p) # appendBlock mode filename blk fs)"

definition HasPrefix :: "string \<Rightarrow> string \<Rightarrow> bool" where
  "HasPrefix s p = (take (length p) s = p)"

text \<open>The test parseLine makes on the mode line: \<^verbatim>\<open>!strings.HasPrefix(line, prefix) || line == prefix\<close>.\<close>

definition bad_mode_line :: "string \<Rightarrow> bool" where
  "bad_mode_line line = (\<not> HasPrefix line ''mode: '' \<or> line = ''mode: '')"

definition parseLine :: "ignore \<Rightarrow> string \<Rightarrow> string \<times> files \<Rightarrow> failure + (string \<times> files)" where
  "parseLine ign line st =
     (case st of (mode, files) \<Rightarrow>
        if mode = [] then
          (if bad_mode_line line then Inl (Returned (BadModeLine line))
           else Inr (drop (length ''mode: '') line, files))
        else
          (case FindStringSubmatch line of
             None \<Rightarrow> Inr (mode, files)
           | Some [filename, sl, sc, el, ec, ns, cn] \<Rightarrow>
               if ign filename None then Inr (mode, files)
               else and_then (newBlock sl sc el ec ns cn)
                      (\<lambda>blk. Inr (mode, appendBlock mode filename blk files))
           | Some _ \<Rightarrow> Inl Panicked))"

text \<open>
  The input as \<^verbatim>\<open>bufio.Scanner\<close> delivers it: the lines it yields, and the error
  \<^verbatim>\<open>scanner.Err()\<close> reports once it has stopped.
\<close>

record scanner =
  scanned :: "string list"
  scan_err :: "string option"

fun scanLines :: "ignore \<Rightarrow> string list \<Rightarrow> string \<times> files \<Rightarrow> failure + (string \<times> files)" where
  "scanLines ign [] st = Inr st"
| "scanLines ign (line # rest) st =
     (case parseLine ign line st of Inl f \<Rightarrow> Inl f | Inr st' \<Rightarrow> scanLines ign rest st')"

section \<open>Sorting and merging the blocks of a file\<close>

definition blocksByStart_Less :: "ProfileBlock \<Rightarrow> ProfileBlock \<Rightarrow> bool" where
  "blocksByStart_Less bi bj =
     (StartLine bi < StartLine bj \<or> StartLine bi = StartLine bj \<and> StartCol bi < StartCol bj)"

definition byFileName_Less :: "Profile \<Rightarrow> Profile \<Rightarrow> bool" where
  "byFileName_Less p q = (FileName p < FileName q)"

text \<open>
  \<^verbatim>\<open>sort.Sort\<close> is library code whose contract is: the result is a rearrangement of
  the input in which no element is \<open>Less\<close> than an earlier one; the order of elements
  that compare equal is left open. The functions below take the sort as a parameter
  \<open>srt\<close>, and theorems ask of it no more than this contract.
\<close>

definition sorts_by :: "('a \<Rightarrow> 'a \<Rightarrow> bool) \<Rightarrow> ('a list \<Rightarrow> 'a list) \<Rightarrow> bool" where
  "sorts_by lt srt =
     (\<forall>xs. mset (srt xs) = mset xs \<and> sorted_wrt (\<lambda>a b. \<not> lt b a) (srt xs))"

text \<open>
  The insertion sort that \<^verbatim>\<open>sort.Sort\<close> runs on a slice of at most 12 elements: each
  element in turn is swapped leftwards while it is \<open>Less\<close> than its left neighbour.
  \<open>insertLeft\<close> works on the sorted prefix in reverse (its head is the right neighbour).
\<close>

fun insertLeft :: "('a \<Rightarrow> 'a \<Rightarrow> bool) \<Rightarrow> 'a \<Rightarrow> 'a list \<Rightarrow> 'a list" where
  "insertLeft lt x [] = [x]"
| "insertLeft lt x (y # ys) = (if lt x y then y # insertLeft lt x ys else x # y # ys)"

definition insertionSort :: "('a \<Rightarrow> 'a \<Rightarrow> bool) \<Rightarrow> 'a list \<Rightarrow> 'a list" where
  "insertionSort lt xs = rev (foldl (\<lambda>acc x. insertLeft lt x acc) [] xs)"

definition same_span :: "ProfileBlock \<Rightarrow> ProfileBlock \<Rightarrow> bool" where
  "same_span a b =
     (StartLine a = StartLine b \<and> StartCol a = StartCol b \<and>
      EndLine a = EndLine b \<and> EndCol a = EndCol b)"

text \<open>\<^verbatim>\<open>Count |= c\<close> in mode "set", \<^verbatim>\<open>Count += c\<close> (wrapping at 64 bits) otherwise.\<close>

definition combineCount :: "string \<Rightarrow> int \<Rightarrow> int \<Rightarrow> int" where
  "combineCount mode c d = (if mode = ''set'' then c OR d else wrap64 (c + d))"

text \<open>
  The merge loop of mergeSameLocationSamples, in place as the source has it: \<open>blocks\<close>
  is the slice, \<open>blockNo\<close> the number of blocks kept so far and \<open>blockIndex\<close> the
  loop counter. The loop returns the slice and the final \<open>blockNo\<close>.
\<close>

function mergeLoop :: "string \<Rightarrow> ProfileBlock list \<Rightarrow> nat \<Rightarrow> nat \<Rightarrow> failure + (ProfileBlock list \<times> nat)" where
  "mergeLoop mode blocks blockNo blockIndex =
     (if blockIndex < length blocks then
        (let currentBlock = blocks ! blockIndex; last = blocks ! (blockNo - 1) in
         if same_span currentBlock last then
           (if NumStmt currentBlock \<noteq> NumStmt last then
              Inl (Returned (InconsistentNumStmt (NumStmt last) (NumStmt currentBlock)))
            else mergeLoop mode
                   (blocks[blockNo - 1 := last\<lparr>Count := combineCount mode (Count last) (Count currentBlock)\<rparr>])
                   blockNo (blockIndex + 1))
         else mergeLoop mode (blocks[blockNo := currentBlock]) (blockNo + 1) (blockIndex + 1))
      else Inr (blocks, blockNo))"
  by pat_completeness auto
termination
  by (relation "measure (\<lambda>(mode, blocks, blockNo, blockIndex). length blocks - blockIndex)") auto

declare mergeLoop.simps [simp del]

text \<open>
  One profile's share of mergeSameLocationSamples: sort, merge, cut the slice to
  \<open>blockNo\<close>. A profile always holds a block when parseLine made it; on a nil slice
  the final \<^verbatim>\<open>Blocks[:1]\<close> is out of range and panics.
\<close>

definition mergeBlocks :: "(ProfileBlock list \<Rightarrow> ProfileBlock list) \<Rightarrow> string \<Rightarrow> ProfileBlock list \<Rightarrow> failure + ProfileBlock list" where
  "mergeBlocks srt mode blocks =
     (let sorted = srt blocks in
      if sorted = [] then Inl Panicked
      else (case mergeLoop mode sorted 1 1 of
              Inl f \<Rightarrow> Inl f
            | Inr (bs, blockNo) \<Rightarrow> Inr (take blockNo bs)))"

fun mergeSameLocationSamples :: "(ProfileBlock list \<Rightarrow> ProfileBlock list) \<Rightarrow> files \<Rightarrow> string \<Rightarrow> failure + files" where
  "mergeSameLocationSamples srt [] mode = Inr []"
| "mergeSameLocationSamples srt ((k, p) # fs) mode =
     (case mergeBlocks srt mode (Blocks p) of
        Inl f \<Rightarrow> Inl f
      | Inr bs \<Rightarrow>
          (case mergeSameLocationSamples srt fs mode of
             Inl f \<Rightarrow> Inl f
           | Inr fs' \<Rightarrow> Inr ((k, p\<lparr>Blocks := bs\<rparr>) # fs')))"

definition generateSortedProfilesSlice :: "(Profile list \<Rightarrow> Profile list) \<Rightarrow> files \<Rightarrow> Profile list" where
  "generateSortedProfilesSlice srtP files = srtP (map snd files)"

text \<open>
  ParseProfiles. \<open>srtB\<close> is \<^verbatim>\<open>sort.Sort\<close> on blocksByStart, \<open>srtP\<close> on byFileName.
\<close>

definition ParseProfiles :: "(ProfileBlock list \<Rightarrow> ProfileBlock list) \<Rightarrow> (Profile list \<Rightarrow> Profile list) \<Rightarrow> ignore \<Rightarrow> scanner \<Rightarrow> failure + Profile list" where
  "ParseProfiles srtB srtP ign inp =
     (case scanLines ign (scanned inp) ([], []) of
        Inl f \<Rightarrow> Inl f
      | Inr (mode, files) \<Rightarrow>
          (case scan_err inp of
             Some e \<Rightarrow> Inl (Returned (ScanProfiles e))
           | None \<Rightarrow>
               (case mergeSameLocationSamples srtB files mode of
                  Inl f \<Rightarrow> Inl f
                | Inr files' \<Rightarrow> Inr (generateSortedProfilesSlice srtP files'))))"

section \<open>Auxiliary notions for stating the properties\<close>

text \<open>The predicates of the capture groups of a pattern, in order.\<close>

fun group_preds :: "item list \<Rightarrow> (char \<Rightarrow> bool) list" where
  "group_preds [] = []"
| "group_preds (Group p # its) = p # group_preds its"
| "group_preds (Lit c # its) = group_preds its"
| "group_preds (AnyRune # its) = group_preds its"

text \<open>What \<^verbatim>\<open>[0-9]+\<close> captures: a non-empty string of decimal digits.\<close>

definition digit_string :: "string \<Rightarrow> bool" where
  "digit_string s = (s \<noteq> [] \<and> list_all is_digit s)"

text \<open>
  The merge as the specification words it: walking a list sorted by start position, two
  adjacent blocks with the same four coordinates become one; their statement counts must
  agree, else the InconsistentNumStmt error; their counts are combined by \<open>combineCount\<close>.
\<close>

fun mergeAdjacent :: "string \<Rightarrow> ProfileBlock list \<Rightarrow> failure + ProfileBlock list" where
  "mergeAdjacent mode [] = Inr []"
| "mergeAdjacent mode [a] = Inr [a]"
| "mergeAdjacent mode (a # b # bs) =
     (if same_span b a then
        (if NumStmt b \<noteq> NumStmt a then Inl (Returned (InconsistentNumStmt (NumStmt a) (NumStmt b)))
         else mergeAdjacent mode (a\<lparr>Count := combineCount mode (Count a) (Count b)\<rparr> # bs))
      else (case mergeAdjacent mode (b # bs) of Inl f \<Rightarrow> Inl f | Inr r \<Rightarrow> Inr (a # r)))"

text \<open>Ascending order on (start line, start column), and the coordinates of a block.\<close>

definition start_le :: "ProfileBlock \<Rightarrow> ProfileBlock \<Rightarrow> bool" where
  "start_le a b = (StartLine a < StartLine b \<or> StartLine a = StartLine b \<and> StartCol a \<le> StartCol b)"

definition block_start :: "ProfileBlock \<Rightarrow> int \<times> int" where
  "block_start b = (StartLine b, StartCol b)"

definition block_end :: "ProfileBlock \<Rightarrow> int \<times> int" where
  "block_end b = (EndLine b, EndCol b)"

definition block_span :: "ProfileBlock \<Rightarrow> (int \<times> int) \<times> (int \<times> int)" where
  "block_span b = (block_start b, block_end b)"

section \<open>The coverage tree\<close>

text \<open>
  Coverage, Package, Class, Method, Line and Source are declared in a file of the
  repository that is not among the sources at hand; the records carry the fields that
  main.go reads and writes. The rates are float32 in the program and exact quotients here.
\<close>

record Line =
  Number :: int
  Hits :: int

record Method =
  MethodName :: string
  MethodLines :: "Line list"
  MethodLineRate :: rat

record Class =
  ClassName :: string
  Filename :: string
  Methods :: "Method list"
  ClassLines :: "Line list"
  ClassLineRate :: rat

record Package =
  PackageName :: string
  Classes :: "Class list"
  PackageLineRate :: rat

record Source =
  Path :: string

record Coverage =
  Sources :: "Source list"
  Packages :: "Package list"
  Timestamp :: int
  LinesValid :: int
  LinesCovered :: int
  LineRate :: rat

text \<open>
  Modelled from the spec: Lines.AddOrUpdateLine, which is not among the sources. Section 3
  of the specification (Line): within one Method a line number is unique; when a line
  number recurs the counts are combined, under boolean mode by logical OR (a count of at
  least 1 becomes "hit"), under count mode by numeric sum. The call in main.go passes the
  line number and the count only; the mode the rule depends on is passed here as the flag
  \<open>boolean\<close>, which the caller takes from the profile (mode "set").
\<close>

definition combineHits :: "bool \<Rightarrow> int \<Rightarrow> int \<Rightarrow> int" where
  "combineHits boolean old new =
     (if boolean then (if 1 \<le> old \<or> 1 \<le> new then 1 else 0) else old + new)"

fun AddOrUpdateLine :: "bool \<Rightarrow> Line list \<Rightarrow> int \<Rightarrow> int \<Rightarrow> Line list" where
  "AddOrUpdateLine boolean [] n h = [\<lparr>Number = n, Hits = h\<rparr>]"
| "AddOrUpdateLine boolean (l # ls) n h =
     (if Number l = n then l\<lparr>Hits := combineHits boolean (Hits l) h\<rparr> # ls
      else l # AddOrUpdateLine boolean ls n h)"

text \<open>
  Modelled from the spec: the HitRate, NumLines and NumLinesWithHits methods, which are not
  among the sources. Section 4.4: LinesValid counts all Lines once per Method line,
  LinesCovered those with hits above 0, and a rate is covered / valid, 0 when valid is 0.
\<close>

definition NumLinesWithHits :: "Line list \<Rightarrow> nat" where
  "NumLinesWithHits ls = length (filter (\<lambda>l. 0 < Hits l) ls)"

definition rate :: "nat \<Rightarrow> nat \<Rightarrow> rat" where
  "rate covered valid = (if valid = 0 then 0 else of_nat covered / of_nat valid)"

definition HitRate :: "Line list \<Rightarrow> rat" where
  "HitRate ls = rate (NumLinesWithHits ls) (length ls)"

definition PackageMethodLines :: "Package \<Rightarrow> Line list" where
  "PackageMethodLines p = concat (map MethodLines (concat (map Methods (Classes p))))"

definition CoverageMethodLines :: "Coverage \<Rightarrow> Line list" where
  "CoverageMethodLines cov = concat (map PackageMethodLines (Packages cov))"

section \<open>The declarations of a parsed file and the resolver\<close>

text \<open>
  \<^verbatim>\<open>token.Position\<close> as the file set resolves it, and of \<^verbatim>\<open>ast.FuncDecl\<close> what the
  visitor reads: the name, the positions of Pos() and End(), and the receiver list, each
  field given by the positions of the start and end of its type (\<open>None\<close> is a nil Recv).
  \<^verbatim>\<open>ast.Walk\<close> meets the function declarations of a file in source order, so a parsed
  file is their list.
\<close>

record Position =
  Offset :: int
  PosLine :: int
  PosColumn :: int

record FuncDecl =
  FuncName :: string
  FuncPos :: Position
  FuncEnd :: Position
  Recv :: "(Position \<times> Position) list option"

record fileVisitor =
  fileName :: string
  fileData :: string
  pkg :: Package
  classes :: "string \<rightharpoonup> nat"
  profile :: Profile

text \<open>
  The pointers of the program: \<open>pkg\<close> is the package the visitor appends to, written
  back into the coverage tree when the walk is over; \<open>classes\<close> maps a class name to
  the position of that class in \<open>Classes (pkg v)\<close>, which only grows.
\<close>

text \<open>
  The inner loop of the resolver, \<^verbatim>\<open>for i := block.StartLine; i <= block.EndLine; i++\<close>.
  The increment wraps at 64 bits, so with \<open>EndLine = max_int\<close> the loop does not end:
  \<open>None\<close> is that outcome.
\<close>

partial_function (option) lineLoop :: "bool \<Rightarrow> int \<Rightarrow> int \<Rightarrow> int \<Rightarrow> Line list \<Rightarrow> Line list option" where
  "lineLoop boolean hits i endLine ls =
     (if i \<le> endLine
      then lineLoop boolean hits (wrap64 (i + 1)) endLine (AddOrUpdateLine boolean ls i hits)
      else Some ls)"

text \<open>The two tests of the block loop: "past the end" breaks, "before the beginning" continues.\<close>

definition past_end :: "Position \<Rightarrow> ProfileBlock \<Rightarrow> bool" where
  "past_end stop block =
     (StartLine block > PosLine stop \<or> (StartLine block = PosLine stop \<and> StartCol block \<ge> PosColumn stop))"

definition before_start :: "Position \<Rightarrow> ProfileBlock \<Rightarrow> bool" where
  "before_start start block =
     (EndLine block < PosLine start \<or> (EndLine block = PosLine start \<and> EndCol block \<le> PosColumn start))"

fun blockLoop :: "bool \<Rightarrow> Position \<Rightarrow> Position \<Rightarrow> ProfileBlock list \<Rightarrow> Line list \<Rightarrow> Line list option" where
  "blockLoop boolean start stop [] ls = Some ls"
| "blockLoop boolean start stop (block # rest) ls =
     (if past_end stop block then Some ls
      else if before_start start block then blockLoop boolean start stop rest ls
      else (case lineLoop boolean (Count block) (StartLine block) (EndLine block) ls of
              None \<Rightarrow> None
            | Some ls' \<Rightarrow> blockLoop boolean start stop rest ls'))"

text \<open>fileVisitor.method: the Method of one declaration, its rate not yet set.\<close>

definition visitor_method :: "fileVisitor \<Rightarrow> FuncDecl \<Rightarrow> Method option" where
  "visitor_method v n =
     map_option (\<lambda>ls. \<lparr>MethodName = FuncName n, MethodLines = ls, MethodLineRate = 0\<rparr>)
       (blockLoop (Mode (profile v) = ''set'') (FuncPos n) (FuncEnd n) (Blocks (profile v)) [])"

text \<open>
  \<^verbatim>\<open>strings.ReplaceAll\<close> for a one-byte pattern, \<^verbatim>\<open>strings.TrimLeft\<close> and
  \<^verbatim>\<open>strings.TrimRight\<close> for a one-byte cutset, and \<^verbatim>\<open>strings.TrimSpace\<close> for the ASCII
  white space (the program's also strips the multi-byte Unicode spaces).
\<close>

definition ReplaceAll :: "string \<Rightarrow> char \<Rightarrow> char \<Rightarrow> string" where
  "ReplaceAll s old new = map (\<lambda>c. if c = old then new else c) s"

definition TrimLeft :: "string \<Rightarrow> char \<Rightarrow> string" where
  "TrimLeft s c = dropWhile (\<lambda>d. d = c) s"

definition TrimRight :: "string \<Rightarrow> char \<Rightarrow> string" where
  "TrimRight s c = rev (dropWhile (\<lambda>d. d = c) (rev s))"

definition is_space :: "char \<Rightarrow> bool" where
  "is_space c = (c \<in> set [CHR 0x09, CHR 0x0A, CHR 0x0B, CHR 0x0C, CHR 0x0D, CHR '' ''])"

definition TrimSpace :: "string \<Rightarrow> string" where
  "TrimSpace s = rev (dropWhile is_space (rev (dropWhile is_space s)))"

text \<open>
  fileVisitor.recvName. Indexing an empty receiver list panics, and so does a slice of
  the file data that is out of range (the capacity of the data taken as its length).
\<close>

definition recvName :: "fileVisitor \<Rightarrow> FuncDecl \<Rightarrow> failure + string" where
  "recvName v n =
     (case Recv n of
        None \<Rightarrow> Inr ''-''
      | Some [] \<Rightarrow> Inl Panicked
      | Some ((start, stop) # _) \<Rightarrow>
          if 0 \<le> Offset start \<and> Offset start \<le> Offset stop \<and> Offset stop \<le> int (length (fileData v))
          then Inr (TrimSpace (TrimLeft
                 (take (nat (Offset stop - Offset start)) (drop (nat (Offset start)) (fileData v)))
                 CHR ''*''))
          else Inl Panicked)"

text \<open>
  fileVisitor.class, with the global \<open>byFiles\<close> as a parameter: the position of the class
  of the declaration in \<open>Classes (pkg v)\<close>, and the visitor, which has gained the class
  when the name was new.
\<close>

definition visitor_class :: "bool \<Rightarrow> fileVisitor \<Rightarrow> FuncDecl \<Rightarrow> failure + (nat \<times> fileVisitor)" where
  "visitor_class byFiles v n =
     and_then (if byFiles then Inr (ReplaceAll (ReplaceAll (fileName v) CHR ''/'' CHR ''.'') CHR 0x5C CHR ''.'')
               else recvName v n)
       (\<lambda>className.
          case classes v className of
            Some i \<Rightarrow> Inr (i, v)
          | None \<Rightarrow>
              Inr (length (Classes (pkg v)),
                   v\<lparr>classes := (classes v)(className \<mapsto> length (Classes (pkg v))),
                     pkg := (pkg v)\<lparr>Classes := Classes (pkg v) @
                       [\<lparr>ClassName = className, Filename = fileName v, Methods = [],
                         ClassLines = [], ClassLineRate = 0\<rparr>]\<rparr>\<rparr>))"

text \<open>fileVisitor.Visit at a function declaration.\<close>

definition Visit :: "bool \<Rightarrow> fileVisitor \<Rightarrow> FuncDecl \<Rightarrow> failure + fileVisitor" where
  "Visit byFiles v n =
     and_then (visitor_class byFiles v n)
       (\<lambda>(i, v1).
          case visitor_method v1 n of
            None \<Rightarrow> Inl Diverged
          | Some m \<Rightarrow>
              (let m' = m\<lparr>MethodLineRate := HitRate (MethodLines m)\<rparr>;
                   c = Classes (pkg v1) ! i;
                   c1 = c\<lparr>Methods := Methods c @ [m'], ClassLines := ClassLines c @ MethodLines m'\<rparr>;
                   c2 = c1\<lparr>ClassLineRate := HitRate (ClassLines c1)\<rparr>
               in Inr (v1\<lparr>pkg := (pkg v1)\<lparr>Classes := (Classes (pkg v1))[i := c2]\<rparr>\<rparr>)))"

fun Walk :: "bool \<Rightarrow> fileVisitor \<Rightarrow> FuncDecl list \<Rightarrow> failure + fileVisitor" where
  "Walk byFiles v [] = Inr v"
| "Walk byFiles v (n # ns) =
     (case Visit byFiles v n of Inl f \<Rightarrow> Inl f | Inr v' \<Rightarrow> Walk byFiles v' ns)"

text \<open>
  For stating what the block loop selects: the blocks for which the inner loop runs, the
  inner loop run over a list of blocks, positions as (line, column) pairs and their strict
  lexicographic order.
\<close>

fun selected :: "Position \<Rightarrow> Position \<Rightarrow> ProfileBlock list \<Rightarrow> ProfileBlock list" where
  "selected start stop [] = []"
| "selected start stop (block # rest) =
     (if past_end stop block then []
      else if before_start start block then selected start stop rest
      else block # selected start stop rest)"

fun linesOf :: "bool \<Rightarrow> ProfileBlock list \<Rightarrow> Line list \<Rightarrow> Line list option" where
  "linesOf boolean [] ls = Some ls"
| "linesOf boolean (block # rest) ls =
     (case lineLoop boolean (Count block) (StartLine block) (EndLine block) ls of
        None \<Rightarrow> None
      | Some ls' \<Rightarrow> linesOf boolean rest ls')"

definition pos_of :: "Position \<Rightarrow> int \<times> int" where
  "pos_of p = (PosLine p, PosColumn p)"

definition pos_less :: "int \<times> int \<Rightarrow> int \<times> int \<Rightarrow> bool" where
  "pos_less p q = (fst p < fst q \<or> fst p = fst q \<and> snd p < snd q)"






section \<open>Paths (path/filepath, with the separator of Unix)\<close>

text \<open>
  The functions of the standard library that main.go calls on paths, for a system whose
  separator is the slash: Split (the directory part and the file part), Base, Clean and
  Join of two elements.
\<close>

definition is_slash :: "char \<Rightarrow> bool" where
  "is_slash c = (c = CHR ''/'')"

definition SplitDir :: "string \<Rightarrow> string" where
  "SplitDir path = rev (dropWhile (\<lambda>c. \<not> is_slash c) (rev path))"

definition SplitFile :: "string \<Rightarrow> string" where
  "SplitFile path = rev (takeWhile (\<lambda>c. \<not> is_slash c) (rev path))"

definition Base :: "string \<Rightarrow> string" where
  "Base path =
     (if path = [] then ''.''
      else (let p = SplitFile (TrimRight path CHR ''/'') in if p = [] then ''/'' else p))"

fun splitOn :: "char \<Rightarrow> string \<Rightarrow> string list" where
  "splitOn c [] = [[]]"
| "splitOn c (x # xs) =
     (if x = c then [] # splitOn c xs
      else (case splitOn c xs of [] \<Rightarrow> [[x]] | y # ys \<Rightarrow> (x # y) # ys))"

fun joinSlash :: "string list \<Rightarrow> string" where
  "joinSlash [] = []"
| "joinSlash [x] = x"
| "joinSlash (x # y # ys) = x @ ''/'' @ joinSlash (y # ys)"

text \<open>
  The elements Clean keeps, with the kept elements so far in reverse: an empty element
  and a dot are dropped, a double dot removes the element before it, stays when there is
  nothing to remove and the path is not rooted, and is dropped at the root.
\<close>

fun cleanElems :: "bool \<Rightarrow> string list \<Rightarrow> string list \<Rightarrow> string list" where
  "cleanElems rooted [] st = rev st"
| "cleanElems rooted (e # es) st =
     (if e = [] \<or> e = ''.'' then cleanElems rooted es st
      else if e = ''..'' then
        (case st of
           [] \<Rightarrow> if rooted then cleanElems rooted es [] else cleanElems rooted es [''..'']
         | t # ts \<Rightarrow> if t = ''..'' then cleanElems rooted es (''..'' # st)
                     else cleanElems rooted es ts)
      else cleanElems rooted es (e # st))"

definition Clean :: "string \<Rightarrow> string" where
  "Clean path =
     (if path = [] then ''.''
      else (let rooted = is_slash (hd path);
                body = joinSlash (cleanElems rooted (splitOn CHR ''/'' path) [])
            in if rooted then CHR ''/'' # body else if body = [] then ''.'' else body))"

definition Join :: "string \<Rightarrow> string \<Rightarrow> string" where
  "Join a b = (if a \<noteq> [] then Clean (a @ ''/'' @ b) else if b \<noteq> [] then Clean b else [])"

section \<open>The aggregator: ParseProfile and parseProfiles\<close>

text \<open>
  Of \<^verbatim>\<open>packages.Package\<close> and \<^verbatim>\<open>packages.Module\<close> the fields main.go reads; \<open>None\<close> is
  a nil pointer.
\<close>

record Module =
  ModulePath :: string
  ModuleDir :: string

record GoPackage =
  ID :: string
  GoFiles :: "string list"
  PkgModule :: "Module option"

text \<open>
  What lies outside the program: the global \<open>byFiles\<close>, the Go parser and the file
  system (each gives an error message or a result for a path), \<^verbatim>\<open>packages.Load\<close> (from
  the build tags and the package names), the clock in milliseconds, and the XML encoder:
  for a prefix, an indent and a coverage tree, the buffers it hands to the writer in turn.
\<close>

record env =
  byFiles :: bool
  parseFile :: "string \<Rightarrow> string + FuncDecl list"
  readFile :: "string \<Rightarrow> string + string"
  loadPackages :: "string list \<Rightarrow> string list \<Rightarrow> string + GoPackage option list"
  now_ms :: int
  encode :: "string \<Rightarrow> string \<Rightarrow> Coverage \<Rightarrow> string list"

definition getPackageName :: "string \<Rightarrow> string" where
  "getPackageName filename = TrimRight (TrimRight (SplitDir filename) CHR 0x5C) CHR ''/''"

definition findAbsFilePath :: "GoPackage \<Rightarrow> string \<Rightarrow> string" where
  "findAbsFilePath g profileName =
     (case filter (\<lambda>fullpath. Base fullpath = Base profileName) (GoFiles g) of
        [] \<Rightarrow> []
      | fullpath # _ \<Rightarrow> fullpath)"

text \<open>The name under which ParseProfile looks the package up.\<close>

definition pkgPathOf :: "Module \<Rightarrow> string \<Rightarrow> string" where
  "pkgPathOf m fname =
     ReplaceAll (Join (ModulePath m) (TrimRight (TrimRight (SplitDir fname) CHR ''/'') CHR 0x5C))
       CHR 0x5C CHR ''/''"

text \<open>The lookup loop of ParseProfile: it has no break, so the last package of that name wins.\<close>

definition findPackage :: "string \<Rightarrow> Package list \<Rightarrow> nat option" where
  "findPackage name ps =
     foldl (\<lambda>found i. if PackageName (ps ! i) = name then Some i else found) None [0..<length ps]"

text \<open>
  Coverage.ParseProfile. The result is the coverage tree as the call leaves it and the
  error it returns (or the panic, or the loop that does not end); the tree is the
  receiver the program mutates. The slice \<^verbatim>\<open>FileName[len(Module.Path)+1:]\<close> panics when
  the file name is too short.
\<close>

definition ParseProfile :: "env \<Rightarrow> ignore \<Rightarrow> Profile \<Rightarrow> GoPackage option \<Rightarrow> Coverage \<Rightarrow> Coverage \<times> failure option" where
  "ParseProfile env ign prof pkgPkg cov =
     (case pkgPkg of
        None \<Rightarrow> (cov, Some (Returned PackageRequired))
      | Some g \<Rightarrow>
          (case PkgModule g of
             None \<Rightarrow> (cov, Some (Returned PackageRequired))
           | Some m \<Rightarrow>
               if length (FileName prof) < length (ModulePath m) + 1 then (cov, Some Panicked)
               else
                 (let fname = drop (length (ModulePath m) + 1) (FileName prof);
                      absFilePath = findAbsFilePath g (FileName prof)
                  in case parseFile env absFilePath of
                       Inl e \<Rightarrow> (cov, Some (Returned (FilePathError e)))
                     | Inr parsed \<Rightarrow>
                         (case readFile env absFilePath of
                            Inl e \<Rightarrow> (cov, Some (Returned (ReadFileError e)))
                          | Inr data \<Rightarrow>
                              if ign fname (Some data) then (cov, None)
                              else
                                (let cov1 = (case findPackage (pkgPathOf m fname) (Packages cov) of
                                               Some i \<Rightarrow> cov
                                             | None \<Rightarrow> cov\<lparr>Packages := Packages cov @
                                                 [\<lparr>PackageName = ID g, Classes = [], PackageLineRate = 0\<rparr>]\<rparr>);
                                     idx = (case findPackage (pkgPathOf m fname) (Packages cov) of
                                              Some i \<Rightarrow> i
                                            | None \<Rightarrow> length (Packages cov));
                                     visitor = \<lparr>fileName = fname, fileData = data,
                                                pkg = Packages cov1 ! idx, classes = Map.empty,
                                                profile = prof\<rparr>
                                 in case Walk (byFiles env) visitor parsed of
                                      Inl f \<Rightarrow> (cov1, Some f)
                                    | Inr v \<Rightarrow>
                                        (cov1\<lparr>Packages := (Packages cov1)[idx :=
                                           (pkg v)\<lparr>PackageLineRate := HitRate (PackageMethodLines (pkg v))\<rparr>]\<rparr>,
                                         None))))))"

fun profilesLoop :: "env \<Rightarrow> ignore \<Rightarrow> (string \<rightharpoonup> GoPackage) \<Rightarrow> Profile list \<Rightarrow> Coverage \<Rightarrow> Coverage \<times> failure option" where
  "profilesLoop env ign pkgMap [] cov = (cov, None)"
| "profilesLoop env ign pkgMap (p # ps) cov =
     (case ParseProfile env ign p (pkgMap (getPackageName (FileName p))) cov of
        (cov', Some f) \<Rightarrow> (cov', Some f)
      | (cov', None) \<Rightarrow> profilesLoop env ign pkgMap ps cov')"

definition parseProfiles :: "env \<Rightarrow> ignore \<Rightarrow> Profile list \<Rightarrow> (string \<rightharpoonup> GoPackage) \<Rightarrow> Coverage \<Rightarrow> Coverage \<times> failure option" where
  "parseProfiles env ign profiles pkgMap cov =
     (case profilesLoop env ign pkgMap profiles (cov\<lparr>Packages := []\<rparr>) of
        (cov', Some f) \<Rightarrow> (cov', Some f)
      | (cov', None) \<Rightarrow>
          (cov'\<lparr>LinesValid := int (length (CoverageMethodLines cov')),
                LinesCovered := int (NumLinesWithHits (CoverageMethodLines cov')),
                LineRate := HitRate (CoverageMethodLines cov')\<rparr>, None))"

section \<open>Convert and the writer\<close>

text \<open>The constant \<^verbatim>\<open>xml.Header\<close> of the standard library and DTDDecl of main.go.\<close>

definition xml_Header :: string where
  "xml_Header = ''<?xml version='' @ [CHR 0x22] @ ''1.0'' @ [CHR 0x22] @ '' encoding='' @ [CHR 0x22]
     @ ''UTF-8'' @ [CHR 0x22] @ ''?>'' @ [CHR 0x0A]"

definition DTDDecl :: string where
  "DTDDecl = ''<!DOCTYPE coverage SYSTEM '' @ [CHR 0x22]
     @ ''http://cobertura.sourceforge.net/xml/coverage-04.dtd'' @ [CHR 0x22] @ ''>''"

text \<open>
  An \<^verbatim>\<open>io.Writer\<close>: what it has taken so far, one entry per successful Write, the
  number of Write calls made, and for each call by number the error it answers with
  (\<open>None\<close>: the call succeeds). A failing call is taken to write nothing.
\<close>

record writer =
  written :: "string list"
  calls :: nat
  failing :: "nat \<Rightarrow> string option"

definition Write :: "writer \<Rightarrow> string \<Rightarrow> writer \<times> string option" where
  "Write w s =
     (case failing w (calls w) of
        Some e \<Rightarrow> (w\<lparr>calls := Suc (calls w)\<rparr>, Some e)
      | None \<Rightarrow> (w\<lparr>written := written w @ [s], calls := Suc (calls w)\<rparr>, None))"

text \<open>
  \<^verbatim>\<open>encoder.Encode\<close>: the encoder's buffers go to the writer in turn; the first failing
  Write ends it, and its error is the result of Encode.
\<close>

fun writeAll :: "writer \<Rightarrow> string list \<Rightarrow> writer \<times> string option" where
  "writeAll w [] = (w, None)"
| "writeAll w (s # ss) =
     (case Write w s of (w', Some e) \<Rightarrow> (w', Some e) | (w', None) \<Rightarrow> writeAll w' ss)"

definition appendIfUnique :: "Source list \<Rightarrow> string \<Rightarrow> Source list" where
  "appendIfUnique sources dir =
     (if dir \<in> set (map Path sources) then sources else sources @ [\<lparr>Path = dir\<rparr>])"

definition getPackages :: "env \<Rightarrow> Profile list \<Rightarrow> string list \<Rightarrow> string + GoPackage option list" where
  "getPackages env profiles buildTags =
     (if profiles = [] then Inr []
      else loadPackages env buildTags (map (\<lambda>p. getPackageName (FileName p)) profiles))"

text \<open>The loop of Convert over the loaded packages: the source directories and the package map.\<close>

fun collectPackages :: "GoPackage option list \<Rightarrow> Source list \<times> (string \<rightharpoonup> GoPackage) \<Rightarrow> Source list \<times> (string \<rightharpoonup> GoPackage)" where
  "collectPackages [] acc = acc"
| "collectPackages (None # rest) acc = collectPackages rest acc"
| "collectPackages (Some g # rest) (sources, pkgMap) =
     (case PkgModule g of
        None \<Rightarrow> collectPackages rest (sources, pkgMap)
      | Some m \<Rightarrow> collectPackages rest (appendIfUnique sources (ModuleDir m), pkgMap(ID g \<mapsto> g)))"

text \<open>
  The last statements of Convert, from \<^verbatim>\<open>fmt.Fprint(out, xml.Header)\<close> on: the header,
  the DOCTYPE line, the tree through an encoder with prefix "" and indent of two blanks,
  and a newline. The results of the three \<^verbatim>\<open>fmt.Fprint\<close> calls are assigned to blanks
  in the source; the error of Encode is returned.
\<close>

definition emitReport :: "env \<Rightarrow> writer \<Rightarrow> Coverage \<Rightarrow> writer \<times> failure option" where
  "emitReport env out cov =
     (let out1 = fst (Write out xml_Header);
          out2 = fst (Write out1 (DTDDecl @ [CHR 0x0A]))
      in case writeAll out2 (encode env [] ''  '' cov) of
           (out3, Some e) \<Rightarrow> (out3, Some (Returned (WriteError e)))
         | (out3, None) \<Rightarrow> (fst (Write out3 [CHR 0x0A]), None))"

text \<open>Convert. The result is the writer as the call leaves it and the error Convert returns.\<close>

definition Convert :: "env \<Rightarrow> (ProfileBlock list \<Rightarrow> ProfileBlock list) \<Rightarrow> (Profile list \<Rightarrow> Profile list) \<Rightarrow> scanner \<Rightarrow> writer \<Rightarrow> ignore \<Rightarrow> string list \<Rightarrow> writer \<times> failure option" where
  "Convert env srtB srtP inp out ign buildTags =
     (case ParseProfiles srtB srtP ign inp of
        Inl f \<Rightarrow> (out, Some f)
      | Inr profiles \<Rightarrow>
          (case getPackages env profiles buildTags of
             Inl e \<Rightarrow> (out, Some (Returned (LoadPackages e)))
           | Inr pkgs \<Rightarrow>
               (case collectPackages pkgs ([], Map.empty) of
                  (sources, pkgMap) \<Rightarrow>
                    (case parseProfiles env ign profiles pkgMap
                            \<lparr>Sources = sources, Packages = [], Timestamp = now_ms env,
                             LinesValid = 0, LinesCovered = 0, LineRate = 0\<rparr> of
                       (cov, Some f) \<Rightarrow> (out, Some f)
                     | (cov, None) \<Rightarrow> emitReport env out cov))))"

text \<open>The test ParseProfile makes first: \<^verbatim>\<open>pkgPkg == nil || pkgPkg.Module == nil\<close>.\<close>

definition no_module :: "GoPackage option \<Rightarrow> bool" where
  "no_module pkgPkg = (case pkgPkg of None \<Rightarrow> True | Some g \<Rightarrow> PkgModule g = None)"






text \<open>
  Two conditions on the blocks of a file, for stating when spans end up merged: blocks
  that start at the same position also end at the same position, and blocks of the same
  span carry the same number of statements.
\<close>

definition ends_agree :: "ProfileBlock list \<Rightarrow> bool" where
  "ends_agree bs = (\<forall>x\<in>set bs. \<forall>y\<in>set bs. block_start x = block_start y \<longrightarrow> block_end x = block_end y)"

definition stmts_agree :: "ProfileBlock list \<Rightarrow> bool" where
  "stmts_agree bs = (\<forall>x\<in>set bs. \<forall>y\<in>set bs. block_span x = block_span y \<longrightarrow> NumStmt x = NumStmt y)"

(* ==== properties ==== *)

section \<open>The insertion sort meets the contract of sort.Sort\<close>

lemma set_insertLeft: "set (insertLeft lt x ys) = insert x (set ys)"
  by (induction ys) auto

lemma mset_insertLeft: "mset (insertLeft lt x ys) = add_mset x (mset ys)"
  by (induction ys) auto

lemma sorted_insertLeft:
  assumes asym: "\<And>a b. lt a b \<Longrightarrow> \<not> lt b a"
      and trans: "\<And>a b c. \<not> lt a b \<Longrightarrow> \<not> lt b c \<Longrightarrow> \<not> lt a c"
  shows "sorted_wrt (\<lambda>a b. \<not> lt a b) ys \<Longrightarrow> sorted_wrt (\<lambda>a b. \<not> lt a b) (insertLeft lt x ys)"
proof (induction ys)
  case Nil
  then show ?case by simp
next
  case (Cons y ys)
  show ?case
  proof (cases "lt x y")
    case True
    then show ?thesis using Cons asym by (auto simp: set_insertLeft)
  next
    case False
    then show ?thesis using Cons trans by auto
  qed
qed

lemma insertionSort_fold:
  assumes asym: "\<And>a b. lt a b \<Longrightarrow> \<not> lt b a"
      and trans: "\<And>a b c. \<not> lt a b \<Longrightarrow> \<not> lt b c \<Longrightarrow> \<not> lt a c"
  shows "sorted_wrt (\<lambda>a b. \<not> lt a b) acc \<Longrightarrow>
     sorted_wrt (\<lambda>a b. \<not> lt a b) (foldl (\<lambda>acc x. insertLeft lt x acc) acc xs) \<and>
     mset (foldl (\<lambda>acc x. insertLeft lt x acc) acc xs) = mset acc + mset xs"
  by (induction xs arbitrary: acc) (simp_all add: sorted_insertLeft[where lt = lt, OF asym trans] mset_insertLeft)

lemma sorts_by_insertionSort:
  assumes asym: "\<And>a b. lt a b \<Longrightarrow> \<not> lt b a"
      and trans: "\<And>a b c. \<not> lt a b \<Longrightarrow> \<not> lt b c \<Longrightarrow> \<not> lt a c"
  shows "sorts_by lt (insertionSort lt)"
proof -
  have "\<And>xs. sorted_wrt (\<lambda>a b. \<not> lt b a) (insertionSort lt xs)"
    using insertionSort_fold[where lt = lt and acc = "[]", OF asym trans]
    by (simp add: insertionSort_def sorted_wrt_rev)
  moreover have "\<And>xs. mset (insertionSort lt xs) = mset xs"
    using insertionSort_fold[where lt = lt and acc = "[]", OF asym trans] by (simp add: insertionSort_def)
  ultimately show ?thesis by (simp add: sorts_by_def)
qed

lemma sorts_blocks: "sorts_by blocksByStart_Less (insertionSort blocksByStart_Less)"
  by (rule sorts_by_insertionSort) (auto simp: blocksByStart_Less_def)

lemma sorts_profiles: "sorts_by byFileName_Less (insertionSort byFileName_Less)"
  by (rule sorts_by_insertionSort) (auto simp: byFileName_Less_def)

section \<open>The mode line and lines that do not match (C5)\<close>

lemma and_then_Returned:
  "and_then r f = Inl (Returned e) \<Longrightarrow> r = Inl (Returned e) \<or> (\<exists>x. r = Inr x \<and> f x = Inl (Returned e))"
  by (cases r) (auto simp: and_then_def)

lemma toInt_not_Returned: "toInt s \<noteq> Inl (Returned e)"
  by (simp add: toInt_def split: option.splits)

lemma newBlock_not_Returned: "newBlock sl sc el ec ns cn \<noteq> Inl (Returned e)"
  unfolding newBlock_def
  by (auto dest!: and_then_Returned simp: toInt_not_Returned)

lemma parseLine_later:
  assumes "mode \<noteq> []"
  shows "parseLine ign line (mode, files) \<noteq> Inl (Returned e)"
    and "parseLine ign line (mode, files) = Inr (m', fs') \<Longrightarrow> m' = mode"
  using assms
  by (auto simp: parseLine_def newBlock_not_Returned and_then_def
           split: option.splits list.splits sum.splits if_splits dest!: and_then_Returned)

lemma scanLines_later:
  "mode \<noteq> [] \<Longrightarrow> scanLines ign ls (mode, files) \<noteq> Inl (Returned e)"
proof (induction ls arbitrary: files)
  case Nil
  then show ?case by simp
next
  case (Cons l ls)
  show ?case
  proof (cases "parseLine ign l (mode, files)")
    case (Inl f)
    then show ?thesis using parseLine_later(1)[OF Cons.prems, of ign l files e] by auto
  next
    case (Inr st)
    obtain m' fs' where st: "st = (m', fs')" by (cases st)
    with Inr parseLine_later(2)[OF Cons.prems] have "m' = mode" by blast
    with Inr st Cons show ?thesis by simp
  qed
qed

lemma mergeLoop_failure:
  "mergeLoop mode blocks k i = Inl f \<Longrightarrow> \<exists>a b. f = Returned (InconsistentNumStmt a b)"
proof (induction mode blocks k i rule: mergeLoop.induct)
  case (1 mode blocks blockNo blockIndex)
  from "1.prems" show ?case
    apply (subst (asm) mergeLoop.simps)
    apply (auto simp: Let_def split: if_splits dest: "1.IH")
    done
qed

lemma mergeBlocks_failure:
  "mergeBlocks srt mode bs = Inl f \<Longrightarrow> f = Panicked \<or> (\<exists>a b. f = Returned (InconsistentNumStmt a b))"
  by (auto simp: mergeBlocks_def Let_def split: if_splits sum.splits dest: mergeLoop_failure)

lemma mergeSame_failure:
  "mergeSameLocationSamples srt fs mode = Inl f \<Longrightarrow> f = Panicked \<or> (\<exists>a b. f = Returned (InconsistentNumStmt a b))"
  by (induction srt fs mode rule: mergeSameLocationSamples.induct)
     (auto split: sum.splits dest: mergeBlocks_failure)

lemma scanLines_first:
  "(scanLines ign (l # ls) ([], []) = Inl (Returned (BadModeLine x))) = (x = l \<and> bad_mode_line l)"
proof (cases "bad_mode_line l")
  case True
  then show ?thesis by (auto simp: parseLine_def bad_mode_line_def HasPrefix_def split: if_splits)
next
  case False
  then have p: "parseLine ign l ([], []) = Inr (drop (length ''mode: '') l, [])"
    and ne: "drop (length ''mode: '') l \<noteq> []"
    by (auto simp: parseLine_def bad_mode_line_def HasPrefix_def split: if_splits)
  show ?thesis using False scanLines_later[OF ne] by (simp add: p)
qed

lemma parseLine_mode_accepted:
  "\<not> bad_mode_line l \<Longrightarrow> parseLine ign l ([], fs) = Inr (drop 6 l, fs) \<and> drop 6 l \<noteq> []"
  by (auto simp: parseLine_def bad_mode_line_def HasPrefix_def eval_nat_numeral)

lemma parseLine_skip:
  "mode \<noteq> [] \<Longrightarrow> FindStringSubmatch line = None \<Longrightarrow> parseLine ign line (mode, files) = Inr (mode, files)"
  by (simp add: parseLine_def)

lemma scanLines_skip:
  "mode \<noteq> [] \<Longrightarrow> \<forall>l\<in>set ls. FindStringSubmatch l = None \<Longrightarrow>
     scanLines ign ls (mode, files) = Inr (mode, files)"
  by (induction ls) (simp_all add: parseLine_skip)

lemma sorts_by_Nil: "sorts_by lt srt \<Longrightarrow> srt [] = []"
proof -
  assume "sorts_by lt srt"
  then have "mset (srt []) = mset []" unfolding sorts_by_def by blast
  then show ?thesis by simp
qed

text \<open>
  C5 (amended). ParseProfiles returns the "bad mode line" error exactly when there is a
  first line and it does not start with \<^verbatim>\<open>mode: \<close> or is \<^verbatim>\<open>mode: \<close> with nothing
  after it (the error echoes that line). Any other first line is accepted, and what
  follows the prefix, blanks included, becomes the mode, which is then not empty. Once
  the mode is set, a line the scanner delivers that lineRe does not match is skipped:
  parseLine returns the mode and the files as they were. No sequence of later lines
  makes the scan return an error; when none of them matches, the scan ends with the
  mode and files unchanged, and, the scanner reporting no error of its own, the parse
  returns the empty list of profiles.
\<close>

theorem mode_line_and_skipped_lines:
  "((ParseProfiles srtB srtP ign inp = Inl (Returned (BadModeLine x))) =
      (case scanned inp of [] \<Rightarrow> False | l # ls \<Rightarrow> x = l \<and> bad_mode_line l))
   \<and> (\<not> bad_mode_line l \<longrightarrow>
        parseLine ign l ([], files) = Inr (drop 6 l, files) \<and> drop 6 l \<noteq> [])
   \<and> (mode \<noteq> [] \<longrightarrow> FindStringSubmatch line = None \<longrightarrow>
        parseLine ign line (mode, files) = Inr (mode, files))
   \<and> (mode \<noteq> [] \<longrightarrow> scanLines ign ls (mode, files) \<noteq> Inl (Returned e))
   \<and> (mode \<noteq> [] \<longrightarrow> (\<forall>k\<in>set ls. FindStringSubmatch k = None) \<longrightarrow>
        scanLines ign ls (mode, files) = Inr (mode, files))
   \<and> (sorts_by byFileName_Less srtP \<longrightarrow> \<not> bad_mode_line l \<longrightarrow>
        (\<forall>k\<in>set ls. FindStringSubmatch k = None) \<longrightarrow>
        ParseProfiles srtB srtP ign \<lparr>scanned = l # ls, scan_err = None\<rparr> = Inr [])"
proof -
  have a: "(ParseProfiles srtB srtP ign inp = Inl (Returned (BadModeLine x))) =
      (scanLines ign (scanned inp) ([], []) = Inl (Returned (BadModeLine x)))"
    by (auto simp: ParseProfiles_def split: sum.splits option.splits prod.splits dest: mergeSame_failure)
  have b: "(ParseProfiles srtB srtP ign inp = Inl (Returned (BadModeLine x))) =
      (case scanned inp of [] \<Rightarrow> False | l # ls \<Rightarrow> x = l \<and> bad_mode_line l)"
  proof (cases "scanned inp")
    case Nil
    then show ?thesis by (simp add: a)
  next
    case (Cons l ls)
    then show ?thesis by (simp add: a scanLines_first del: scanLines.simps)
  qed
  have c: "\<not> bad_mode_line l \<longrightarrow>
        parseLine ign l ([], files) = Inr (drop 6 l, files) \<and> drop 6 l \<noteq> []"
    using parseLine_mode_accepted by blast
  have d: "mode \<noteq> [] \<longrightarrow> FindStringSubmatch line = None \<longrightarrow>
        parseLine ign line (mode, files) = Inr (mode, files)"
    using parseLine_skip by blast
  have e: "mode \<noteq> [] \<longrightarrow> scanLines ign ls (mode, files) \<noteq> Inl (Returned e)"
    using scanLines_later by blast
  have f: "mode \<noteq> [] \<longrightarrow> (\<forall>k\<in>set ls. FindStringSubmatch k = None) \<longrightarrow>
        scanLines ign ls (mode, files) = Inr (mode, files)"
    using scanLines_skip by blast
  have g: "sorts_by byFileName_Less srtP \<longrightarrow> \<not> bad_mode_line l \<longrightarrow>
        (\<forall>k\<in>set ls. FindStringSubmatch k = None) \<longrightarrow>
        ParseProfiles srtB srtP ign \<lparr>scanned = l # ls, scan_err = None\<rparr> = Inr []"
  proof (intro impI)
    assume s: "sorts_by byFileName_Less srtP" and m: "\<not> bad_mode_line l"
      and k: "\<forall>k\<in>set ls. FindStringSubmatch k = None"
    from parseLine_mode_accepted[OF m, of ign "[]"]
    have p: "parseLine ign l ([], []) = Inr (drop 6 l, [])" and ne: "drop 6 l \<noteq> []" by simp_all
    from scanLines_skip[OF ne k, of ign "[]"] p
    have "scanLines ign (l # ls) ([], []) = Inr (drop 6 l, [])" by simp
    then show "ParseProfiles srtB srtP ign \<lparr>scanned = l # ls, scan_err = None\<rparr> = Inr []"
      by (simp add: ParseProfiles_def generateSortedProfilesSlice_def sorts_by_Nil[OF s]
            del: scanLines.simps)
  qed
  from b c d e f g show ?thesis by (intro conjI)
qed

text \<open>
  The theorem at \<^verbatim>\<open>invalid data\<close> as the first line (the input of
  TestConvertParseProfilesError), and at the mode line \<^verbatim>\<open>mode: set\<close> followed by the
  stray lines \<^verbatim>\<open>PASS\<close> and \<^verbatim>\<open>ok\<close>.
\<close>

theorem mode_line_and_skipped_lines_witness:
  "FindStringSubmatch ''PASS'' = None \<and>
   parseLine (\<lambda>_ _. False) ''PASS'' (''set'', []) = Inr (''set'', []) \<and>
   parseLine (\<lambda>_ _. False) ''mode: set'' ([], []) = Inr (''set'', []) \<and>
   scanLines (\<lambda>_ _. False) [''PASS'', ''ok''] (''set'', []) = Inr (''set'', []) \<and>
   ParseProfiles (insertionSort blocksByStart_Less) (insertionSort byFileName_Less) (\<lambda>_ _. False)
       \<lparr>scanned = [''mode: set'', ''PASS'', ''ok''], scan_err = None\<rparr> = Inr [] \<and>
   ParseProfiles (insertionSort blocksByStart_Less) (insertionSort byFileName_Less) (\<lambda>_ _. False)
       \<lparr>scanned = [''invalid data''], scan_err = None\<rparr> = Inl (Returned (BadModeLine ''invalid data''))"
proof -
  have n: "FindStringSubmatch ''PASS'' = None" "FindStringSubmatch ''ok'' = None"
    by (simp_all add: FindStringSubmatch_def lineRe_def not_newline_def is_digit_def)
  have m: "''set'' \<noteq> []" by simp
  have g: "\<not> bad_mode_line ''mode: set''" by (simp add: bad_mode_line_def HasPrefix_def)
  have k: "\<forall>k\<in>set [''PASS'', ''ok'']. FindStringSubmatch k = None" using n by simp
  from mode_line_and_skipped_lines[of "insertionSort blocksByStart_Less" "insertionSort byFileName_Less"
      "\<lambda>_ _. False" "\<lparr>scanned = [''invalid data''], scan_err = None\<rparr>" "''invalid data''"
      "''mode: set''" "[]" "''set''" "''PASS''" "[''PASS'', ''ok'']"] n m g k sorts_profiles
  show ?thesis by (simp add: bad_mode_line_def HasPrefix_def del: scanLines.simps)
qed

text \<open>
  C5 as stated fails: a first line whose mode token is three blanks is accepted, and the
  parse succeeds with no profiles.
\<close>

theorem whitespace_mode_counterexample:
  "ParseProfiles (insertionSort blocksByStart_Less) (insertionSort byFileName_Less) (\<lambda>_ _. False)
       \<lparr>scanned = [''mode:   ''], scan_err = None\<rparr> = Inr []"
  by (simp add: ParseProfiles_def parseLine_def bad_mode_line_def HasPrefix_def
        generateSortedProfilesSlice_def insertionSort_def)



section \<open>Conversion of the numeric fields (C10)\<close>

lemma first_some_SomeD:
  "first_some xs = Some y \<Longrightarrow> Some y \<in> set xs"
  by (induction xs rule: first_some.induct) auto

lemma match_items_groups:
  "match_items its s = Some gs \<Longrightarrow>
     list_all2 (\<lambda>g p. g \<noteq> [] \<and> list_all p g) gs (group_preds its)"
proof (induction its s arbitrary: gs rule: match_items.induct)
  case (1 s)
  then show ?case by (simp split: if_splits)
next
  case (2 c its s)
  then show ?case by (auto split: list.splits if_splits)
next
  case (3 its s)
  then show ?case by (auto split: list.splits if_splits)
next
  case (4 p its s)
  define F where "F = (\<lambda>n. map_option ((#) (take n s)) (match_items its (drop n s)))"
  from "4.prems" have "first_some (map F (rev [1..<Suc (length (takeWhile p s))])) = Some gs"
    by (simp add: F_def)
  then have "Some gs \<in> F ` {1..<Suc (length (takeWhile p s))}"
    by (auto dest!: first_some_SomeD)
  then obtain n where nn: "n \<in> {1..<Suc (length (takeWhile p s))}" and m: "F n = Some gs"
    by (metis imageE)
  from nn have n: "1 \<le> n" "n \<le> length (takeWhile p s)" by auto
  from m have "map_option ((#) (take n s)) (match_items its (drop n s)) = Some gs"
    by (simp add: F_def)
  then obtain g where g: "match_items its (drop n s) = Some g" and gs: "gs = take n s # g"
    by (cases "match_items its (drop n s)") auto
  have "n \<in> set (rev [1..<Suc (length (takeWhile p s))])" using nn by auto
  from "4.IH"[OF this g]
  have ih: "list_all2 (\<lambda>g p. g \<noteq> [] \<and> list_all p g) g (group_preds its)" .
  have "take n s = take n (takeWhile p s)"
    using n(2) by (metis append_eq_conv_conj takeWhile_dropWhile_id take_all_iff take_append diff_is_0_eq' take_0 append_Nil2)
  then have "list_all p (take n s)"
    by (metis in_set_takeD list_all_iff set_takeWhileD)
  moreover have "take n s \<noteq> []" using n
    by (metis One_nat_def length_takeWhile_le not_less_eq_eq le_trans take_eq_Nil le_zero_eq list.size(3))
  ultimately show ?case using ih gs by simp
qed

lemma lineRe_match_shape:
  assumes "FindStringSubmatch line = Some m"
  shows "\<exists>f sl sc el ec ns cn. m = [f, sl, sc, el, ec, ns, cn] \<and> f \<noteq> [] \<and> digit_string sl \<and> digit_string sc
           \<and> digit_string el \<and> digit_string ec \<and> digit_string ns \<and> digit_string cn"
  using match_items_groups[OF assms[unfolded FindStringSubmatch_def]]
  by (auto simp: lineRe_def list_all2_Cons2 digit_string_def)

lemma digits_value_nonneg_aux: "0 \<le> a \<Longrightarrow> list_all is_digit s \<Longrightarrow> 0 \<le> foldl (\<lambda>a c. a * 10 + digit_val c) a s"
  by (induction s arbitrary: a) (auto simp: is_digit_def digit_val_def Let_def)

lemma Atoi_digits:
  assumes "digit_string s"
  shows "Atoi s = (if digits_value s \<le> max_int then Some (digits_value s) else None)"
proof -
  from assms obtain c cs where s: "s = c # cs" and c: "is_digit c" and cs: "list_all is_digit cs"
    by (cases s) (auto simp: digit_string_def)
  have ns: "c \<noteq> CHR ''-''" "c \<noteq> CHR ''+''" using c by (auto simp: is_digit_def)
  have "0 \<le> digits_value s" using assms digits_value_nonneg_aux[of 0 s]
    by (simp add: digits_value_def digit_string_def)
  then have "min_int \<le> digits_value s" by (simp add: min_int_def)
  then show ?thesis using ns c cs by (simp add: Atoi_def s)
qed

lemma toInt_digits:
  "digit_string s \<Longrightarrow> toInt s = (if digits_value s \<le> max_int then Inr (digits_value s) else Inl Panicked)"
  by (simp add: toInt_def Atoi_digits)


text \<open>
  C10 (amended). A line that lineRe matches has seven captured fields: the file name and
  six non-empty digit strings. toInt converts each digit string, and fails exactly when
  its value exceeds the largest 64-bit integer. parseLine (mode set, file not ignored)
  then appends the block when all six conversions succeed and panics otherwise: it
  neither returns an error nor skips the line.
\<close>

theorem matched_line_conversion:
  assumes "mode \<noteq> []" and "FindStringSubmatch line = Some m" and "\<not> ign (hd m) None"
  shows "\<exists>f sl sc el ec ns cn.
           m = [f, sl, sc, el, ec, ns, cn] \<and>
           list_all digit_string [sl, sc, el, ec, ns, cn] \<and>
           list_all (\<lambda>s. toInt s = (if digits_value s \<le> max_int then Inr (digits_value s) else Inl Panicked))
             [sl, sc, el, ec, ns, cn] \<and>
           parseLine ign line (mode, files) =
             (if list_all (\<lambda>s. digits_value s \<le> max_int) [sl, sc, el, ec, ns, cn]
              then Inr (mode, appendBlock mode f
                     \<lparr>StartLine = digits_value sl, StartCol = digits_value sc,
                      EndLine = digits_value el, EndCol = digits_value ec,
                      NumStmt = digits_value ns, Count = digits_value cn\<rparr> files)
              else Inl Panicked)"
proof -
  from lineRe_match_shape[OF assms(2)] obtain f sl sc el ec ns cn where
    m: "m = [f, sl, sc, el, ec, ns, cn]" and
    d: "digit_string sl" "digit_string sc" "digit_string el" "digit_string ec" "digit_string ns"
       "digit_string cn"
    by blast
  have p: "parseLine ign line (mode, files) =
      and_then (newBlock sl sc el ec ns cn) (\<lambda>blk. Inr (mode, appendBlock mode f blk files))"
    using assms m by (simp add: parseLine_def)
  have "parseLine ign line (mode, files) =
             (if list_all (\<lambda>s. digits_value s \<le> max_int) [sl, sc, el, ec, ns, cn]
              then Inr (mode, appendBlock mode f
                     \<lparr>StartLine = digits_value sl, StartCol = digits_value sc,
                      EndLine = digits_value el, EndCol = digits_value ec,
                      NumStmt = digits_value ns, Count = digits_value cn\<rparr> files)
              else Inl Panicked)"
    unfolding p newBlock_def by (simp add: toInt_digits d and_then_def)
  then show ?thesis using m d by (simp add: toInt_digits)
qed

text \<open>The theorem at the line \<^verbatim>\<open>file.go:5.1,9.2 3 1\<close> in mode "set".\<close>

theorem matched_line_conversion_witness:
  "parseLine (\<lambda>_ _. False) ''file.go:5.1,9.2 3 1'' (''set'', []) =
     Inr (''set'', [(''file.go'', \<lparr>FileName = ''file.go'', Mode = ''set'',
        Blocks = [\<lparr>StartLine = 5, StartCol = 1, EndLine = 9, EndCol = 2, NumStmt = 3, Count = 1\<rparr>]\<rparr>)])"
proof -
  have a: "''set'' \<noteq> []" by simp
  have b: "FindStringSubmatch ''file.go:5.1,9.2 3 1'' = Some [''file.go'', ''5'', ''1'', ''9'', ''2'', ''3'', ''1'']"
    by (simp add: FindStringSubmatch_def lineRe_def not_newline_def is_digit_def rune_width_def)
  have c: "\<not> (\<lambda>_ _. False) (hd [''file.go'', ''5'', ''1'', ''9'', ''2'', ''3'', ''1'']) None" by simp
  from matched_line_conversion[OF a b c, of "[]"] show ?thesis
    by (simp add: digits_value_def digit_val_def max_int_def)
qed

text \<open>
  C10 as stated ("converting never fails") fails: the line below matches the pattern,
  its count is one more than the largest 64-bit integer, Atoi reports an error and
  parseLine panics.
\<close>

theorem conversion_panics_counterexample:
  "FindStringSubmatch ''file.go:5.1,9.2 3 9223372036854775808'' =
      Some [''file.go'', ''5'', ''1'', ''9'', ''2'', ''3'', ''9223372036854775808''] \<and>
   Atoi ''9223372036854775808'' = None \<and>
   parseLine (\<lambda>_ _. False) ''file.go:5.1,9.2 3 9223372036854775808'' (''set'', []) = Inl Panicked"
proof -
  have b: "FindStringSubmatch ''file.go:5.1,9.2 3 9223372036854775808'' =
      Some [''file.go'', ''5'', ''1'', ''9'', ''2'', ''3'', ''9223372036854775808'']"
    by (simp add: FindStringSubmatch_def lineRe_def not_newline_def is_digit_def rune_width_def)
  have c: "Atoi ''9223372036854775808'' = None"
    by (simp add: Atoi_def is_digit_def digits_value_def digit_val_def max_int_def min_int_def)
  have d: "parseLine (\<lambda>_ _. False) ''file.go:5.1,9.2 3 9223372036854775808'' (''set'', []) = Inl Panicked"
    by (simp add: parseLine_def b newBlock_def toInt_def c and_then_def Atoi_def is_digit_def
          digits_value_def digit_val_def max_int_def min_int_def)
  from b c d show ?thesis by simp
qed

section \<open>The merge loop computes the adjacent merge\<close>

lemma take_last_nth:
  "0 < k \<Longrightarrow> k \<le> length bs \<Longrightarrow> take k bs = take (k - 1) bs @ [bs ! (k - 1)]"
  by (cases k) (simp_all add: take_Suc_conv_app_nth)

lemma mergeLoop_mergeAdjacent:
  "0 < k \<Longrightarrow> k \<le> i \<Longrightarrow> i \<le> length bs \<Longrightarrow>
   (case (mergeLoop mode bs k i) of Inl f \<Rightarrow> Inl f | Inr (b, n) \<Rightarrow> Inr (take n b)) =
   (case (mergeAdjacent mode (bs ! (k - 1) # drop i bs)) of Inl f \<Rightarrow> Inl f | Inr r \<Rightarrow> Inr ((take (k - 1) bs) @ r))"
proof (induction mode bs k i rule: mergeLoop.induct)
  case (1 mode blocks blockNo blockIndex)
  let ?l = "blocks ! (blockNo - 1)"
  show ?case
  proof (cases "blockIndex < length blocks")
    case False
    with "1.prems" have e: "blockIndex = length blocks" by simp
    have "take blockNo blocks = take (blockNo - 1) blocks @ [?l]"
      using "1.prems" e by (simp add: take_last_nth)
    then show ?thesis using e by (subst mergeLoop.simps) simp
  next
    case True
    let ?c = "blocks ! blockIndex"
    have d: "drop blockIndex blocks = ?c # drop (Suc blockIndex) blocks"
      using True by (simp add: Cons_nth_drop_Suc)
    show ?thesis
    proof (cases "same_span ?c ?l")
      case False
      let ?bs' = "blocks[blockNo := ?c]"
      have ih: "(case (mergeLoop mode ?bs' (blockNo + 1) (blockIndex + 1)) of Inl f \<Rightarrow> Inl f | Inr (b, n) \<Rightarrow> Inr (take n b)) =
         (case (mergeAdjacent mode (?bs' ! (blockNo + 1 - 1) # drop (blockIndex + 1) ?bs')) of Inl f \<Rightarrow> Inl f | Inr r \<Rightarrow> Inr ((take (blockNo + 1 - 1) ?bs') @ r))"
        using "1.IH"(2)[OF True refl refl False] "1.prems" True by simp
      have t: "take blockNo ?bs' = take (blockNo - 1) blocks @ [?l]"
        using "1.prems" True by (simp add: take_last_nth)
      have n: "?bs' ! blockNo = ?c" using "1.prems" True by simp
      have dr: "drop (Suc blockIndex) ?bs' = drop (Suc blockIndex) blocks"
        using "1.prems" by simp
      have "mergeLoop mode blocks blockNo blockIndex = mergeLoop mode ?bs' (blockNo + 1) (blockIndex + 1)"
        using True False by (subst mergeLoop.simps) (simp add: Let_def)
      then show ?thesis using ih t n dr d False
        by (cases "mergeAdjacent mode (?c # drop (Suc blockIndex) blocks)") (simp_all)
    next
      case same: True
      show ?thesis
      proof (cases "NumStmt ?c \<noteq> NumStmt ?l")
        case True
        then show ?thesis using same \<open>blockIndex < length blocks\<close> d
          by (subst mergeLoop.simps) (simp add: Let_def)
      next
        case False
        let ?l' = "?l\<lparr>Count := combineCount mode (Count ?l) (Count ?c)\<rparr>"
        let ?bs' = "blocks[blockNo - 1 := ?l']"
        have ih: "(case (mergeLoop mode ?bs' blockNo (blockIndex + 1)) of Inl f \<Rightarrow> Inl f | Inr (b, n) \<Rightarrow> Inr (take n b)) =
           (case (mergeAdjacent mode (?bs' ! (blockNo - 1) # drop (blockIndex + 1) ?bs')) of Inl f \<Rightarrow> Inl f | Inr r \<Rightarrow> Inr ((take (blockNo - 1) ?bs') @ r))"
          using "1.IH"(1)[OF \<open>blockIndex < length blocks\<close> refl refl same] False "1.prems"
            \<open>blockIndex < length blocks\<close> by simp
        have n: "?bs' ! (blockNo - 1) = ?l'" using "1.prems" \<open>blockIndex < length blocks\<close> by simp
        have dr: "drop (Suc blockIndex) ?bs' = drop (Suc blockIndex) blocks"
          using "1.prems" by simp
        have "mergeLoop mode blocks blockNo blockIndex = mergeLoop mode ?bs' blockNo (blockIndex + 1)"
          using \<open>blockIndex < length blocks\<close> same False by (subst mergeLoop.simps) (simp add: Let_def)
        moreover have tk: "take (blockNo - 1) ?bs' = take (blockNo - 1) blocks" by simp
        ultimately show ?thesis using ih[unfolded tk n] dr d same False by simp
      qed
    qed
  qed
qed

lemma mergeBlocks_mergeAdjacent:
  "srt blocks \<noteq> [] \<Longrightarrow> mergeBlocks srt mode blocks = mergeAdjacent mode (srt blocks)"
proof -
  assume ne: "srt blocks \<noteq> []"
  then have l: "1 \<le> length (srt blocks)" by (cases "srt blocks") auto
  have d: "srt blocks ! 0 # drop 1 (srt blocks) = srt blocks"
    using ne by (cases "srt blocks") auto
  from mergeLoop_mergeAdjacent[of 1 1 "srt blocks" mode] l d
  have "(case (mergeLoop mode (srt blocks) 1 1) of Inl f \<Rightarrow> Inl f | Inr (b, n) \<Rightarrow> Inr (take n b)) = mergeAdjacent mode (srt blocks)"
    by (cases "mergeAdjacent mode (srt blocks)") simp_all
  then show ?thesis using ne
    by (cases "mergeLoop mode (srt blocks) 1 1") (auto simp: mergeBlocks_def Let_def)
qed

section \<open>The adjacent merge keeps the order\<close>

lemma not_Less_start_le: "(\<not> blocksByStart_Less b a) = start_le a b"
  by (auto simp: blocksByStart_Less_def start_le_def)

lemma mergeAdjacent_sorted:
  "mergeAdjacent mode bs = Inr rs \<Longrightarrow> sorted_wrt start_le bs \<Longrightarrow>
     sorted_wrt start_le rs \<and> block_span ` set rs = block_span ` set bs"
proof (induction mode bs arbitrary: rs rule: mergeAdjacent.induct)
  case (1 mode)
  then show ?case by simp
next
  case (2 mode a)
  then show ?case by simp
next
  case (3 mode a b bs)
  show ?case
  proof (cases "same_span b a")
    case True
    let ?a' = "a\<lparr>Count := combineCount mode (Count a) (Count b)\<rparr>"
    from True "3.prems" have eq: "NumStmt b = NumStmt a" and r: "mergeAdjacent mode (?a' # bs) = Inr rs"
      by (auto split: if_splits)
    have "\<And>x. start_le ?a' x = start_le a x" by (simp add: start_le_def)
    then have s: "sorted_wrt start_le (?a' # bs)" using "3.prems"(2) by simp
    have sp: "block_span ?a' = block_span a" "block_span b = block_span a"
      using True by (auto simp: block_span_def block_start_def block_end_def same_span_def)
    from "3.IH"(1)[OF True _ r s] eq sp show ?thesis by auto
  next
    case False
    with "3.prems" obtain r where r: "mergeAdjacent mode (b # bs) = Inr r" and rs: "rs = a # r"
      by (auto split: sum.splits)
    from "3.IH"(2)[OF False r] "3.prems"(2)
    have ih: "sorted_wrt start_le r" "block_span ` set r = block_span ` set (b # bs)" by auto
    have "\<forall>x\<in>set r. start_le a x"
    proof
      fix x assume "x \<in> set r"
      then have "block_span x \<in> block_span ` set (b # bs)" using ih(2) by blast
      then obtain y where y: "y \<in> set (b # bs)" "block_span x = block_span y" by auto
      then have "start_le a y" using "3.prems"(2) by auto
      then show "start_le a x" using y(2)
        by (auto simp: start_le_def block_span_def block_start_def)
    qed
    then show ?thesis using ih rs by auto
  qed
qed

section \<open>The order of the result of ParseProfiles (C6)\<close>

lemma sorts_by_blocks_start_le:
  "sorts_by blocksByStart_Less srt \<Longrightarrow> sorted_wrt start_le (srt bs) \<and> set (srt bs) = set bs"
proof -
  assume a: "sorts_by blocksByStart_Less srt"
  then have "sorted_wrt (\<lambda>a b. \<not> blocksByStart_Less b a) (srt bs)" and m: "mset (srt bs) = mset bs"
    by (simp_all add: sorts_by_def)
  then have "sorted_wrt start_le (srt bs)" by (simp add: not_Less_start_le)
  moreover have "set (srt bs) = set bs" using m by (metis set_mset_mset)
  ultimately show ?thesis by simp
qed

lemma mergeBlocks_sorted:
  assumes "sorts_by blocksByStart_Less srt" and "mergeBlocks srt mode bs = Inr rs"
  shows "sorted_wrt start_le rs"
proof -
  from assms(2) have ne: "srt bs \<noteq> []" by (auto simp: mergeBlocks_def Let_def split: if_splits)
  with assms(2) have "mergeAdjacent mode (srt bs) = Inr rs" by (simp add: mergeBlocks_mergeAdjacent)
  then show ?thesis using mergeAdjacent_sorted sorts_by_blocks_start_le[OF assms(1)] by blast
qed

lemma mergeSame_sorted:
  "sorts_by blocksByStart_Less srt \<Longrightarrow> mergeSameLocationSamples srt fs mode = Inr fs' \<Longrightarrow>
     \<forall>p\<in>snd ` set fs'. sorted_wrt start_le (Blocks p)"
proof (induction fs arbitrary: fs')
  case Nil
  then show ?case by simp
next
  case (Cons kp fs)
  obtain k p where kp: "kp = (k, p)" by (cases kp)
  from Cons.prems(2) kp obtain bs fs'' where
    b: "mergeBlocks srt mode (Blocks p) = Inr bs" and
    f: "mergeSameLocationSamples srt fs mode = Inr fs''" and
    e: "fs' = (k, p\<lparr>Blocks := bs\<rparr>) # fs''"
    by (auto split: sum.splits)
  from Cons.IH[OF Cons.prems(1) f] mergeBlocks_sorted[OF Cons.prems(1) b] e
  show ?case by simp
qed

lemma sorts_by_profiles:
  assumes "sorts_by byFileName_Less srt"
  shows "sorted (map FileName (srt ps)) \<and> set (srt ps) = set ps"
proof -
  from assms have "sorted_wrt (\<lambda>a b. \<not> byFileName_Less b a) (srt ps)" and m: "mset (srt ps) = mset ps"
    by (simp_all add: sorts_by_def)
  then have "sorted_wrt (\<lambda>a b. FileName a \<le> FileName b) (srt ps)"
    by (simp add: byFileName_Less_def not_less)
  then have "sorted (map FileName (srt ps))" by (simp add: sorted_map)
  moreover have "set (srt ps) = set ps" using m by (metis set_mset_mset)
  ultimately show ?thesis by simp
qed

text \<open>
  C6. Whatever sort.Sort does with equal keys: when ParseProfiles accepts the input, the
  profiles it returns are in ascending order of file name (byte-wise string order), and
  the blocks of every returned profile are in ascending order of (start line, start
  column).
\<close>

theorem profiles_and_blocks_sorted:
  assumes "sorts_by blocksByStart_Less srtB" and "sorts_by byFileName_Less srtP"
      and "ParseProfiles srtB srtP ign inp = Inr ps"
  shows "sorted (map FileName ps) \<and> (\<forall>p\<in>set ps. sorted_wrt start_le (Blocks p))"
proof -
  from assms(3) obtain mode files files' where
    m: "mergeSameLocationSamples srtB files mode = Inr files'" and
    ps: "ps = srtP (map snd files')"
    by (auto simp: ParseProfiles_def generateSortedProfilesSlice_def split: sum.splits option.splits prod.splits)
  from mergeSame_sorted[OF assms(1) m] have "\<forall>p\<in>set (map snd files'). sorted_wrt start_le (Blocks p)"
    by simp
  then show ?thesis using sorts_by_profiles[OF assms(2), of "map snd files'"] ps by simp
qed

text \<open>
  The theorem with the insertion sort for both sorts, on an input of two files whose
  lines arrive out of order, one span twice.
\<close>

theorem profiles_and_blocks_sorted_witness:
  "ParseProfiles (insertionSort blocksByStart_Less) (insertionSort byFileName_Less) (\<lambda>_ _. False)
     \<lparr>scanned = [''mode: set'', ''b.go:3.1,4.2 1 1'', ''a.go:7.1,8.2 1 0'', ''b.go:1.1,2.2 1 1'',
                 ''a.go:7.1,8.2 1 1''], scan_err = None\<rparr> =
   Inr [\<lparr>FileName = ''a.go'', Mode = ''set'',
         Blocks = [\<lparr>StartLine = 7, StartCol = 1, EndLine = 8, EndCol = 2, NumStmt = 1, Count = 1\<rparr>]\<rparr>,
        \<lparr>FileName = ''b.go'', Mode = ''set'',
         Blocks = [\<lparr>StartLine = 1, StartCol = 1, EndLine = 2, EndCol = 2, NumStmt = 1, Count = 1\<rparr>,
                   \<lparr>StartLine = 3, StartCol = 1, EndLine = 4, EndCol = 2, NumStmt = 1, Count = 1\<rparr>]\<rparr>] \<and>
   sorted [''a.go'', ''b.go''] \<and>
   sorted_wrt start_le [\<lparr>StartLine = 7, StartCol = 1, EndLine = 8, EndCol = 2, NumStmt = 1, Count = 1\<rparr>] \<and>
   sorted_wrt start_le [\<lparr>StartLine = 1, StartCol = 1, EndLine = 2, EndCol = 2, NumStmt = 1, Count = 1\<rparr>,
                   \<lparr>StartLine = 3, StartCol = 1, EndLine = 4, EndCol = 2, NumStmt = 1, Count = 1\<rparr>]"
proof -
  have e: "ParseProfiles (insertionSort blocksByStart_Less) (insertionSort byFileName_Less) (\<lambda>_ _. False)
     \<lparr>scanned = [''mode: set'', ''b.go:3.1,4.2 1 1'', ''a.go:7.1,8.2 1 0'', ''b.go:1.1,2.2 1 1'',
                 ''a.go:7.1,8.2 1 1''], scan_err = None\<rparr> =
   Inr [\<lparr>FileName = ''a.go'', Mode = ''set'',
         Blocks = [\<lparr>StartLine = 7, StartCol = 1, EndLine = 8, EndCol = 2, NumStmt = 1, Count = 1\<rparr>]\<rparr>,
        \<lparr>FileName = ''b.go'', Mode = ''set'',
         Blocks = [\<lparr>StartLine = 1, StartCol = 1, EndLine = 2, EndCol = 2, NumStmt = 1, Count = 1\<rparr>,
                   \<lparr>StartLine = 3, StartCol = 1, EndLine = 4, EndCol = 2, NumStmt = 1, Count = 1\<rparr>]\<rparr>]"
    by (simp add: ParseProfiles_def parseLine_def bad_mode_line_def HasPrefix_def
          FindStringSubmatch_def lineRe_def not_newline_def is_digit_def rune_width_def
          newBlock_def toInt_def Atoi_def digits_value_def digit_val_def max_int_def min_int_def
          and_then_def mergeBlocks_def mergeLoop.simps same_span_def combineCount_def Let_def
          generateSortedProfilesSlice_def insertionSort_def blocksByStart_Less_def byFileName_Less_def)
  from profiles_and_blocks_sorted[OF sorts_blocks sorts_profiles e] e show ?thesis by simp
qed

section \<open>The blocks the resolver selects (C3)\<close>

lemma blockLoop_selected:
  "blockLoop boolean start stop bs ls = linesOf boolean (selected start stop bs) ls"
  by (induction bs arbitrary: ls) (auto split: option.splits)

lemma past_end_pos_less: "past_end stop b = (\<not> pos_less (block_start b) (pos_of stop))"
  by (auto simp: past_end_def pos_less_def block_start_def pos_of_def)

lemma before_start_pos_less: "before_start start b = (\<not> pos_less (pos_of start) (block_end b))"
  by (auto simp: before_start_def pos_less_def block_end_def pos_of_def)

lemma selected_filter:
  "selected start stop bs =
     filter (\<lambda>b. pos_less (pos_of start) (block_end b))
       (takeWhile (\<lambda>b. pos_less (block_start b) (pos_of stop)) bs)"
  by (induction bs) (simp_all add: past_end_pos_less before_start_pos_less)

lemma selected_stops:
  "\<not> pos_less (block_start b) (pos_of stop) \<Longrightarrow>
     selected start stop (xs @ b # ys) = selected start stop xs"
  by (induction xs) (simp_all add: past_end_pos_less)

lemma pos_less_irrefl: "\<not> pos_less p p"
  by (simp add: pos_less_def)

text \<open>
  C3. The block loop of the resolver runs its inner loop exactly for the blocks
  \<open>selected\<close>, and these are: of the blocks before the first one whose start is not
  strictly before the end of the declaration, those whose end is strictly after the
  start of the declaration; "before" and "after" are the strict lexicographic order on
  (line, column). So a block that ends exactly at the start of the declaration is not
  selected, a block that starts exactly at its end is not selected, and nothing that
  follows a block at or past the end is looked at.
\<close>

theorem resolver_overlap:
  "blockLoop boolean start stop bs ls = linesOf boolean (selected start stop bs) ls
   \<and> selected start stop bs =
       filter (\<lambda>b. pos_less (pos_of start) (block_end b))
         (takeWhile (\<lambda>b. pos_less (block_start b) (pos_of stop)) bs)
   \<and> (block_end b1 = pos_of start \<longrightarrow> b1 \<notin> set (selected start stop bs))
   \<and> (block_start b2 = pos_of stop \<longrightarrow> b2 \<notin> set (selected start stop bs))
   \<and> (\<not> pos_less (block_start b3) (pos_of stop) \<longrightarrow>
        selected start stop (xs @ b3 # ys) = selected start stop xs)"
proof -
  have a: "blockLoop boolean start stop bs ls = linesOf boolean (selected start stop bs) ls"
    by (rule blockLoop_selected)
  have b: "selected start stop bs =
       filter (\<lambda>b. pos_less (pos_of start) (block_end b))
         (takeWhile (\<lambda>b. pos_less (block_start b) (pos_of stop)) bs)"
    by (rule selected_filter)
  have c: "block_end b1 = pos_of start \<longrightarrow> b1 \<notin> set (selected start stop bs)"
    by (auto simp: selected_filter pos_less_irrefl)
  have d: "block_start b2 = pos_of stop \<longrightarrow> b2 \<notin> set (selected start stop bs)"
    by (auto simp: selected_filter pos_less_irrefl dest: set_takeWhileD)
  have e: "\<not> pos_less (block_start b3) (pos_of stop) \<longrightarrow>
        selected start stop (xs @ b3 # ys) = selected start stop xs"
    using selected_stops by blast
  from a b c d e show ?thesis by (intro conjI)
qed


text \<open>
  The theorem for a declaration from 5.1 to 8.2 and four blocks: one ending at 5.1, one
  inside, one starting at 8.2 and one listed after it.
\<close>

theorem resolver_overlap_witness:
  "selected \<lparr>Offset = 40, PosLine = 5, PosColumn = 1\<rparr> \<lparr>Offset = 90, PosLine = 8, PosColumn = 2\<rparr>
     [\<lparr>StartLine = 3, StartCol = 1, EndLine = 5, EndCol = 1, NumStmt = 1, Count = 1\<rparr>,
      \<lparr>StartLine = 5, StartCol = 1, EndLine = 6, EndCol = 3, NumStmt = 1, Count = 1\<rparr>,
      \<lparr>StartLine = 8, StartCol = 2, EndLine = 9, EndCol = 1, NumStmt = 1, Count = 1\<rparr>,
      \<lparr>StartLine = 7, StartCol = 1, EndLine = 7, EndCol = 5, NumStmt = 1, Count = 1\<rparr>] =
     [\<lparr>StartLine = 5, StartCol = 1, EndLine = 6, EndCol = 3, NumStmt = 1, Count = 1\<rparr>]
   \<and> block_end \<lparr>StartLine = 3, StartCol = 1, EndLine = 5, EndCol = 1, NumStmt = 1, Count = 1\<rparr> =
       pos_of \<lparr>Offset = 40, PosLine = 5, PosColumn = 1\<rparr>
   \<and> block_start \<lparr>StartLine = 8, StartCol = 2, EndLine = 9, EndCol = 1, NumStmt = 1, Count = 1\<rparr> =
       pos_of \<lparr>Offset = 90, PosLine = 8, PosColumn = 2\<rparr>
   \<and> selected \<lparr>Offset = 40, PosLine = 5, PosColumn = 1\<rparr> \<lparr>Offset = 90, PosLine = 8, PosColumn = 2\<rparr>
     [\<lparr>StartLine = 3, StartCol = 1, EndLine = 5, EndCol = 1, NumStmt = 1, Count = 1\<rparr>,
      \<lparr>StartLine = 5, StartCol = 1, EndLine = 6, EndCol = 3, NumStmt = 1, Count = 1\<rparr>] =
     [\<lparr>StartLine = 5, StartCol = 1, EndLine = 6, EndCol = 3, NumStmt = 1, Count = 1\<rparr>]"
proof -
  let ?s = "\<lparr>Offset = 40, PosLine = 5, PosColumn = 1\<rparr>"
  let ?e = "\<lparr>Offset = 90, PosLine = 8, PosColumn = 2\<rparr>"
  let ?b1 = "\<lparr>StartLine = 3, StartCol = 1, EndLine = 5, EndCol = 1, NumStmt = 1, Count = 1\<rparr>"
  let ?b2 = "\<lparr>StartLine = 5, StartCol = 1, EndLine = 6, EndCol = 3, NumStmt = 1, Count = 1\<rparr>"
  let ?b3 = "\<lparr>StartLine = 8, StartCol = 2, EndLine = 9, EndCol = 1, NumStmt = 1, Count = 1\<rparr>"
  let ?b4 = "\<lparr>StartLine = 7, StartCol = 1, EndLine = 7, EndCol = 5, NumStmt = 1, Count = 1\<rparr>"
  have h1: "block_end ?b1 = pos_of ?s" by (simp add: block_end_def pos_of_def)
  have h2: "block_start ?b3 = pos_of ?e" by (simp add: block_start_def pos_of_def)
  have h3: "\<not> pos_less (block_start ?b3) (pos_of ?e)"
    by (simp add: block_start_def pos_of_def pos_less_def)
  from resolver_overlap[of True ?s ?e "[?b1, ?b2, ?b3, ?b4]" "[]" ?b1 ?b3 ?b3 "[?b1, ?b2]" "[?b4]"]
  have "?b1 \<notin> set (selected ?s ?e [?b1, ?b2, ?b3, ?b4])"
    and "?b3 \<notin> set (selected ?s ?e [?b1, ?b2, ?b3, ?b4])"
    and "selected ?s ?e ([?b1, ?b2] @ ?b3 # [?b4]) = selected ?s ?e [?b1, ?b2]"
    using h1 h2 h3 by blast+
  then show ?thesis using h1 h2
    by (simp add: past_end_def before_start_def)
qed

section \<open>One block over one declaration (C2)\<close>

lemma wrap64_id: "min_int \<le> x \<Longrightarrow> x \<le> max_int \<Longrightarrow> wrap64 x = x"
  by (simp add: wrap64_def min_int_def max_int_def)

lemma lineLoop_upto:
  "min_int \<le> i \<Longrightarrow> e < max_int \<Longrightarrow>
     lineLoop b h i e ls = Some (foldl (\<lambda>ls n. AddOrUpdateLine b ls n h) ls [i..e])"
proof (induction "nat (e + 1 - i)" arbitrary: i ls)
  case 0
  then have "\<not> i \<le> e" by simp
  then show ?case by (subst lineLoop.simps) simp
next
  case (Suc k)
  then have le: "i \<le> e" by simp
  have w: "wrap64 (i + 1) = i + 1"
    using Suc.prems le by (intro wrap64_id) simp_all
  have k: "k = nat (e + 1 - (i + 1))" using Suc.hyps(2) by simp
  have m: "min_int \<le> i + 1" using Suc.prems by simp
  have u: "[i..e] = i # [i + 1..e]" using le by (simp add: upto_rec1)
  show ?case
    by (subst lineLoop.simps) (simp add: le w Suc.hyps(1)[OF k m Suc.prems(2)] u)
qed

text \<open>
  C2 (amended). Mode "set" and the single profile line \<^verbatim>\<open>file.go:5.1,9.2 3 1\<close> parse to
  one profile with one block. For a declaration that starts on line 5 and ends on line 8,
  whatever its columns, the block is selected and the inner loop runs over every line of
  the block, 5 to 9: the Method has exactly five Lines, 5, 6, 7, 8 and 9, each with the
  block's count 1 as its hits.
\<close>

theorem single_block_method:
  "ParseProfiles (insertionSort blocksByStart_Less) (insertionSort byFileName_Less) (\<lambda>_ _. False)
     \<lparr>scanned = [''mode: set'', ''file.go:5.1,9.2 3 1''], scan_err = None\<rparr> =
     Inr [\<lparr>FileName = ''file.go'', Mode = ''set'',
           Blocks = [\<lparr>StartLine = 5, StartCol = 1, EndLine = 9, EndCol = 2, NumStmt = 3, Count = 1\<rparr>]\<rparr>]
   \<and> visitor_method
        (v\<lparr>profile := \<lparr>FileName = ''file.go'', Mode = ''set'',
           Blocks = [\<lparr>StartLine = 5, StartCol = 1, EndLine = 9, EndCol = 2, NumStmt = 3, Count = 1\<rparr>]\<rparr>\<rparr>)
        (n\<lparr>FuncPos := (FuncPos n)\<lparr>PosLine := 5\<rparr>, FuncEnd := (FuncEnd n)\<lparr>PosLine := 8\<rparr>\<rparr>) =
      Some \<lparr>MethodName = FuncName n,
            MethodLines = [\<lparr>Number = 5, Hits = 1\<rparr>, \<lparr>Number = 6, Hits = 1\<rparr>, \<lparr>Number = 7, Hits = 1\<rparr>,
                           \<lparr>Number = 8, Hits = 1\<rparr>, \<lparr>Number = 9, Hits = 1\<rparr>],
            MethodLineRate = 0\<rparr>
   \<and> selected ((FuncPos n)\<lparr>PosLine := 5\<rparr>) ((FuncEnd n)\<lparr>PosLine := 8\<rparr>)
        [\<lparr>StartLine = 5, StartCol = 1, EndLine = 9, EndCol = 2, NumStmt = 3, Count = 1\<rparr>] =
        [\<lparr>StartLine = 5, StartCol = 1, EndLine = 9, EndCol = 2, NumStmt = 3, Count = 1\<rparr>]"
proof -
  have p: "ParseProfiles (insertionSort blocksByStart_Less) (insertionSort byFileName_Less) (\<lambda>_ _. False)
     \<lparr>scanned = [''mode: set'', ''file.go:5.1,9.2 3 1''], scan_err = None\<rparr> =
     Inr [\<lparr>FileName = ''file.go'', Mode = ''set'',
           Blocks = [\<lparr>StartLine = 5, StartCol = 1, EndLine = 9, EndCol = 2, NumStmt = 3, Count = 1\<rparr>]\<rparr>]"
    by (simp add: ParseProfiles_def parseLine_def bad_mode_line_def HasPrefix_def
          FindStringSubmatch_def lineRe_def not_newline_def is_digit_def rune_width_def
          newBlock_def toInt_def Atoi_def digits_value_def digit_val_def max_int_def min_int_def
          and_then_def mergeBlocks_def mergeLoop.simps same_span_def combineCount_def Let_def
          generateSortedProfilesSlice_def insertionSort_def blocksByStart_Less_def byFileName_Less_def)
  have l: "lineLoop True 1 5 9 [] =
     Some [\<lparr>Number = 5, Hits = 1\<rparr>, \<lparr>Number = 6, Hits = 1\<rparr>, \<lparr>Number = 7, Hits = 1\<rparr>,
           \<lparr>Number = 8, Hits = 1\<rparr>, \<lparr>Number = 9, Hits = 1\<rparr>]"
    by (subst lineLoop_upto) (simp_all add: min_int_def max_int_def upto_rec1)
  have m: "visitor_method
        (v\<lparr>profile := \<lparr>FileName = ''file.go'', Mode = ''set'',
           Blocks = [\<lparr>StartLine = 5, StartCol = 1, EndLine = 9, EndCol = 2, NumStmt = 3, Count = 1\<rparr>]\<rparr>\<rparr>)
        (n\<lparr>FuncPos := (FuncPos n)\<lparr>PosLine := 5\<rparr>, FuncEnd := (FuncEnd n)\<lparr>PosLine := 8\<rparr>\<rparr>) =
      Some \<lparr>MethodName = FuncName n,
            MethodLines = [\<lparr>Number = 5, Hits = 1\<rparr>, \<lparr>Number = 6, Hits = 1\<rparr>, \<lparr>Number = 7, Hits = 1\<rparr>,
                           \<lparr>Number = 8, Hits = 1\<rparr>, \<lparr>Number = 9, Hits = 1\<rparr>],
            MethodLineRate = 0\<rparr>"
    by (simp add: visitor_method_def past_end_def before_start_def l)
  have s: "selected ((FuncPos n)\<lparr>PosLine := 5\<rparr>) ((FuncEnd n)\<lparr>PosLine := 8\<rparr>)
        [\<lparr>StartLine = 5, StartCol = 1, EndLine = 9, EndCol = 2, NumStmt = 3, Count = 1\<rparr>] =
        [\<lparr>StartLine = 5, StartCol = 1, EndLine = 9, EndCol = 2, NumStmt = 3, Count = 1\<rparr>]"
    by (simp add: past_end_def before_start_def)
  from p m s show ?thesis by (intro conjI)
qed

text \<open>
  C2 as stated fails: for the declaration from 5.1 to 8.2 the Lines of the Method are not
  the four lines 5 (hit 1), 6, 7, 8 (hit 0).
\<close>

theorem single_block_method_counterexample:
  "map_option MethodLines
     (visitor_method
        \<lparr>fileName = ''file.go'', fileData = [], pkg = \<lparr>PackageName = ''m'', Classes = [], PackageLineRate = 0\<rparr>,
         classes = Map.empty,
         profile = \<lparr>FileName = ''file.go'', Mode = ''set'',
           Blocks = [\<lparr>StartLine = 5, StartCol = 1, EndLine = 9, EndCol = 2, NumStmt = 3, Count = 1\<rparr>]\<rparr>\<rparr>
        \<lparr>FuncName = ''Func1'', FuncPos = \<lparr>Offset = 40, PosLine = 5, PosColumn = 1\<rparr>,
         FuncEnd = \<lparr>Offset = 90, PosLine = 8, PosColumn = 2\<rparr>, Recv = None\<rparr>)
   \<noteq> Some [\<lparr>Number = 5, Hits = 1\<rparr>, \<lparr>Number = 6, Hits = 0\<rparr>, \<lparr>Number = 7, Hits = 0\<rparr>,
            \<lparr>Number = 8, Hits = 0\<rparr>]"
proof -
  have l: "lineLoop True 1 5 9 [] =
     Some [\<lparr>Number = 5, Hits = 1\<rparr>, \<lparr>Number = 6, Hits = 1\<rparr>, \<lparr>Number = 7, Hits = 1\<rparr>,
           \<lparr>Number = 8, Hits = 1\<rparr>, \<lparr>Number = 9, Hits = 1\<rparr>]"
    by (subst lineLoop_upto) (simp_all add: min_int_def max_int_def upto_rec1)
  show ?thesis
    by (simp add: visitor_method_def past_end_def before_start_def l)
qed

section \<open>The lines of a Method (C7)\<close>













section \<open>Profiles without module metadata (C8)\<close>

lemma ParseProfile_no_module:
  "no_module pkgPkg \<Longrightarrow> ParseProfile env ign prof pkgPkg cov = (cov, Some (Returned PackageRequired))"
  by (auto simp: no_module_def ParseProfile_def split: option.splits)

lemma profilesLoop_append:
  "profilesLoop env ign pkgMap qs cov = (cov1, None) \<Longrightarrow>
     profilesLoop env ign pkgMap (qs @ ps) cov = profilesLoop env ign pkgMap ps cov1"
proof (induction qs arbitrary: cov)
  case Nil
  then show ?case by simp
next
  case (Cons q qs)
  obtain c r where p: "ParseProfile env ign q (pkgMap (getPackageName (FileName q))) cov = (c, r)"
    by (cases "ParseProfile env ign q (pkgMap (getPackageName (FileName q))) cov")
  show ?case
  proof (cases r)
    case None
    with p Cons show ?thesis by simp
  next
    case (Some f)
    with p Cons.prems show ?thesis by simp
  qed
qed

text \<open>
  C8. With a nil package or a package whose Module is nil, ParseProfile returns the
  error "package required when using go modules" and leaves the coverage tree as it
  was, whatever the parser and the file system would answer for the file. In the loop
  of parseProfiles the error ends the run: the tree holds what the profiles before it
  added and nothing of this file, and Convert returns the error with nothing written.
\<close>

theorem module_required:
  "(no_module pkgPkg \<longrightarrow>
      ParseProfile env ign prof pkgPkg cov = (cov, Some (Returned PackageRequired)))
   \<and> (no_module (pkgMap (getPackageName (FileName p))) \<longrightarrow>
        profilesLoop env ign pkgMap qs covA = (covB, None) \<longrightarrow>
        profilesLoop env ign pkgMap (qs @ p # ps) covA = (covB, Some (Returned PackageRequired)))
   \<and> (no_module (pkgMap (getPackageName (FileName p))) \<longrightarrow>
        profilesLoop env ign pkgMap qs (covA\<lparr>Packages := []\<rparr>) = (covB, None) \<longrightarrow>
        parseProfiles env ign (qs @ p # ps) pkgMap covA = (covB, Some (Returned PackageRequired)))
   \<and> (ParseProfiles srtB srtP ign inp = Inr profiles \<longrightarrow>
        getPackages env profiles tags = Inr pkgs \<longrightarrow>
        snd (parseProfiles env ign profiles (snd (collectPackages pkgs ([], Map.empty)))
               \<lparr>Sources = fst (collectPackages pkgs ([], Map.empty)), Packages = [],
                Timestamp = now_ms env, LinesValid = 0, LinesCovered = 0, LineRate = 0\<rparr>) = Some f \<longrightarrow>
        Convert env srtB srtP inp out ign tags = (out, Some f))"
proof -
  have a: "no_module pkgPkg \<longrightarrow>
      ParseProfile env ign prof pkgPkg cov = (cov, Some (Returned PackageRequired))"
    using ParseProfile_no_module by blast
  have b: "profilesLoop env ign pkgMap (qs @ p # ps) c0 = (c1, Some (Returned PackageRequired))"
    if n: "no_module (pkgMap (getPackageName (FileName p)))"
      and q: "profilesLoop env ign pkgMap qs c0 = (c1, None)" for c0 c1
    using profilesLoop_append[OF q, of "p # ps"] ParseProfile_no_module[OF n] by simp
  have c: "no_module (pkgMap (getPackageName (FileName p))) \<longrightarrow>
        profilesLoop env ign pkgMap qs (covA\<lparr>Packages := []\<rparr>) = (covB, None) \<longrightarrow>
        parseProfiles env ign (qs @ p # ps) pkgMap covA = (covB, Some (Returned PackageRequired))"
    using b by (simp add: parseProfiles_def)
  have d: "ParseProfiles srtB srtP ign inp = Inr profiles \<longrightarrow>
        getPackages env profiles tags = Inr pkgs \<longrightarrow>
        snd (parseProfiles env ign profiles (snd (collectPackages pkgs ([], Map.empty)))
               \<lparr>Sources = fst (collectPackages pkgs ([], Map.empty)), Packages = [],
                Timestamp = now_ms env, LinesValid = 0, LinesCovered = 0, LineRate = 0\<rparr>) = Some f \<longrightarrow>
        Convert env srtB srtP inp out ign tags = (out, Some f)"
    by (auto simp: Convert_def split: prod.splits option.splits)
  from a b c d show ?thesis by blast
qed


text \<open>
  The theorem at the inputs of TestParseProfileNilPackages and
  TestParseProfileEmptyPackages, once with a file that parses and once with a file that
  does not exist, and at a run of Convert whose package loader finds no package.
\<close>

theorem module_required_witness:
  "ParseProfile
     \<lparr>byFiles = False, parseFile = (\<lambda>_. Inr []), readFile = (\<lambda>_. Inr []),
      loadPackages = (\<lambda>_ _. Inr [None]), now_ms = 0, encode = (\<lambda>_ _ _. [''<coverage/>''])\<rparr>
     (\<lambda>_ _. False) \<lparr>FileName = ''does-not-exist'', Mode = ''set'', Blocks = []\<rparr> None
     \<lparr>Sources = [], Packages = [], Timestamp = 0, LinesValid = 0, LinesCovered = 0, LineRate = 0\<rparr> =
     (\<lparr>Sources = [], Packages = [], Timestamp = 0, LinesValid = 0, LinesCovered = 0, LineRate = 0\<rparr>,
      Some (Returned PackageRequired))
   \<and> ParseProfile
     \<lparr>byFiles = False, parseFile = (\<lambda>_. Inl ''no such file or directory''),
      readFile = (\<lambda>_. Inl ''no such file or directory''),
      loadPackages = (\<lambda>_ _. Inr [None]), now_ms = 0, encode = (\<lambda>_ _ _. [''<coverage/>''])\<rparr>
     (\<lambda>_ _. False) \<lparr>FileName = ''does-not-exist'', Mode = ''set'', Blocks = []\<rparr>
     (Some \<lparr>ID = [], GoFiles = [], PkgModule = None\<rparr>)
     \<lparr>Sources = [], Packages = [], Timestamp = 0, LinesValid = 0, LinesCovered = 0, LineRate = 0\<rparr> =
     (\<lparr>Sources = [], Packages = [], Timestamp = 0, LinesValid = 0, LinesCovered = 0, LineRate = 0\<rparr>,
      Some (Returned PackageRequired))
   \<and> Convert
     \<lparr>byFiles = False, parseFile = (\<lambda>_. Inr []), readFile = (\<lambda>_. Inr []),
      loadPackages = (\<lambda>_ _. Inr [None]), now_ms = 0, encode = (\<lambda>_ _ _. [''<coverage/>''])\<rparr>
     (insertionSort blocksByStart_Less) (insertionSort byFileName_Less)
     \<lparr>scanned = [''mode: set'', ''m/a.go:1.1,2.2 1 1''], scan_err = None\<rparr>
     \<lparr>written = [], calls = 0, failing = (\<lambda>_. None)\<rparr> (\<lambda>_ _. False) [] =
     (\<lparr>written = [], calls = 0, failing = (\<lambda>_. None)\<rparr>, Some (Returned PackageRequired))"
proof -
  let ?env = "\<lparr>byFiles = False, parseFile = (\<lambda>_. Inr []), readFile = (\<lambda>_. Inr []),
      loadPackages = (\<lambda>_ _. Inr [None]), now_ms = 0, encode = (\<lambda>_ _ _. [''<coverage/>''])\<rparr>"
  let ?env2 = "\<lparr>byFiles = False, parseFile = (\<lambda>_. Inl ''no such file or directory''),
      readFile = (\<lambda>_. Inl ''no such file or directory''),
      loadPackages = (\<lambda>_ _. Inr [None]), now_ms = 0, encode = (\<lambda>_ _ _. [''<coverage/>''])\<rparr>"
  let ?prof = "\<lparr>FileName = ''m/a.go'', Mode = ''set'',
      Blocks = [\<lparr>StartLine = 1, StartCol = 1, EndLine = 2, EndCol = 2, NumStmt = 1, Count = 1\<rparr>]\<rparr>"
  let ?inp = "\<lparr>scanned = [''mode: set'', ''m/a.go:1.1,2.2 1 1''], scan_err = None\<rparr>"
  have n1: "no_module None" by (simp add: no_module_def)
  have n2: "no_module (Some \<lparr>ID = [], GoFiles = [], PkgModule = None\<rparr>)" by (simp add: no_module_def)
  have pp: "ParseProfiles (insertionSort blocksByStart_Less) (insertionSort byFileName_Less) (\<lambda>_ _. False) ?inp
      = Inr [?prof]"
    by (simp add: ParseProfiles_def parseLine_def bad_mode_line_def HasPrefix_def
          FindStringSubmatch_def lineRe_def not_newline_def is_digit_def rune_width_def
          newBlock_def toInt_def Atoi_def digits_value_def digit_val_def max_int_def min_int_def
          and_then_def mergeBlocks_def mergeLoop.simps same_span_def combineCount_def Let_def
          generateSortedProfilesSlice_def insertionSort_def blocksByStart_Less_def byFileName_Less_def)
  have gp: "getPackages ?env [?prof] [] = Inr [None]" by (simp add: getPackages_def)
  have cp: "collectPackages [None] ([], Map.empty) = ([], Map.empty)" by simp
  have q: "profilesLoop ?env (\<lambda>_ _. False) Map.empty []
      (\<lparr>Sources = [], Packages = [], Timestamp = 0, LinesValid = 0, LinesCovered = 0, LineRate = 0\<rparr>\<lparr>Packages := []\<rparr>) =
      (\<lparr>Sources = [], Packages = [], Timestamp = 0, LinesValid = 0, LinesCovered = 0, LineRate = 0\<rparr>, None)"
    by simp
  have n3: "no_module (Map.empty (getPackageName (FileName ?prof)))" by (simp add: no_module_def)
  note m = module_required[where env = ?env and ign = "\<lambda>_ _. False" and pkgMap = Map.empty
      and p = ?prof and qs = "[]" and ps = "[]"
      and covA = "\<lparr>Sources = [], Packages = [], Timestamp = 0, LinesValid = 0, LinesCovered = 0, LineRate = 0\<rparr>"
      and covB = "\<lparr>Sources = [], Packages = [], Timestamp = 0, LinesValid = 0, LinesCovered = 0, LineRate = 0\<rparr>"
      and srtB = "insertionSort blocksByStart_Less" and srtP = "insertionSort byFileName_Less"
      and inp = ?inp and profiles = "[?prof]" and tags = "[]" and pkgs = "[None]"
      and f = "Returned PackageRequired"
      and out = "\<lparr>written = [], calls = 0, failing = (\<lambda>_. None)\<rparr>"]
  from m n3 q have pr: "parseProfiles ?env (\<lambda>_ _. False) ([] @ ?prof # []) Map.empty
      \<lparr>Sources = [], Packages = [], Timestamp = 0, LinesValid = 0, LinesCovered = 0, LineRate = 0\<rparr> =
      (\<lparr>Sources = [], Packages = [], Timestamp = 0, LinesValid = 0, LinesCovered = 0, LineRate = 0\<rparr>,
       Some (Returned PackageRequired))"
    by blast
  from m pp gp cp pr have c: "Convert ?env (insertionSort blocksByStart_Less) (insertionSort byFileName_Less)
     ?inp \<lparr>written = [], calls = 0, failing = (\<lambda>_. None)\<rparr> (\<lambda>_ _. False) [] =
     (\<lparr>written = [], calls = 0, failing = (\<lambda>_. None)\<rparr>, Some (Returned PackageRequired))"
    by simp
  from module_required[where pkgPkg = None and env = ?env and ign = "\<lambda>_ _. False"
      and prof = "\<lparr>FileName = ''does-not-exist'', Mode = ''set'', Blocks = []\<rparr>"
      and cov = "\<lparr>Sources = [], Packages = [], Timestamp = 0, LinesValid = 0, LinesCovered = 0, LineRate = 0\<rparr>"] n1
  have a: "ParseProfile ?env (\<lambda>_ _. False) \<lparr>FileName = ''does-not-exist'', Mode = ''set'', Blocks = []\<rparr> None
     \<lparr>Sources = [], Packages = [], Timestamp = 0, LinesValid = 0, LinesCovered = 0, LineRate = 0\<rparr> =
     (\<lparr>Sources = [], Packages = [], Timestamp = 0, LinesValid = 0, LinesCovered = 0, LineRate = 0\<rparr>,
      Some (Returned PackageRequired))" by blast
  from module_required[where pkgPkg = "Some \<lparr>ID = [], GoFiles = [], PkgModule = None\<rparr>" and env = ?env2
      and ign = "\<lambda>_ _. False"
      and prof = "\<lparr>FileName = ''does-not-exist'', Mode = ''set'', Blocks = []\<rparr>"
      and cov = "\<lparr>Sources = [], Packages = [], Timestamp = 0, LinesValid = 0, LinesCovered = 0, LineRate = 0\<rparr>"] n2
  have b: "ParseProfile ?env2 (\<lambda>_ _. False) \<lparr>FileName = ''does-not-exist'', Mode = ''set'', Blocks = []\<rparr>
     (Some \<lparr>ID = [], GoFiles = [], PkgModule = None\<rparr>)
     \<lparr>Sources = [], Packages = [], Timestamp = 0, LinesValid = 0, LinesCovered = 0, LineRate = 0\<rparr> =
     (\<lparr>Sources = [], Packages = [], Timestamp = 0, LinesValid = 0, LinesCovered = 0, LineRate = 0\<rparr>,
      Some (Returned PackageRequired))" by blast
  from a b c show ?thesis by (intro conjI)
qed

section \<open>Writing the report (C9)\<close>

lemma Write_fields:
  "failing (fst (Write w s)) = failing w" "calls (fst (Write w s)) = Suc (calls w)"
  by (simp_all add: Write_def split: option.splits)

lemma Write_ok:
  "failing w (calls w) = None \<Longrightarrow>
     Write w s = (w\<lparr>written := written w @ [s], calls := Suc (calls w)\<rparr>, None)"
  by (simp add: Write_def)

lemma writeAll_ok:
  "\<forall>k. failing w k = None \<Longrightarrow>
     writeAll w ss = (w\<lparr>written := written w @ ss, calls := calls w + length ss\<rparr>, None)"
proof (induction ss arbitrary: w)
  case Nil
  then show ?case by simp
next
  case (Cons s ss)
  let ?w = "w\<lparr>written := written w @ [s], calls := Suc (calls w)\<rparr>"
  have w: "Write w s = (?w, None)" using Cons.prems by (simp add: Write_ok)
  have "\<forall>k. failing ?w k = None" using Cons.prems by simp
  from Cons.IH[OF this] w show ?case by simp
qed

lemma writeAll_fails_iff:
  "(snd (writeAll w ss) \<noteq> None) = (\<exists>k<length ss. failing w (calls w + k) \<noteq> None)"
proof (induction ss arbitrary: w)
  case Nil
  then show ?case by simp
next
  case (Cons s ss)
  show ?case
  proof (cases "failing w (calls w)")
    case (Some e)
    then have "snd (writeAll w (s # ss)) \<noteq> None" by (simp add: Write_def)
    moreover have "\<exists>k<length (s # ss). failing w (calls w + k) \<noteq> None"
      using Some by (intro exI[of _ 0]) simp
    ultimately show ?thesis by simp
  next
    case None
    let ?w = "w\<lparr>written := written w @ [s], calls := Suc (calls w)\<rparr>"
    have w: "writeAll w (s # ss) = writeAll ?w ss" using None by (simp add: Write_def)
    have "(\<exists>k<length (s # ss). failing w (calls w + k) \<noteq> None) =
          (\<exists>k<length ss. failing w (Suc (calls w) + k) \<noteq> None)"
    proof
      assume "\<exists>k<length (s # ss). failing w (calls w + k) \<noteq> None"
      then obtain k where k: "k < length (s # ss)" "failing w (calls w + k) \<noteq> None" by blast
      with None have "k \<noteq> 0" by (cases k) auto
      then obtain j where "k = Suc j" by (cases k) auto
      with k show "\<exists>k<length ss. failing w (Suc (calls w) + k) \<noteq> None"
        by (intro exI[of _ j]) simp
    next
      assume "\<exists>k<length ss. failing w (Suc (calls w) + k) \<noteq> None"
      then obtain j where "j < length ss" "failing w (Suc (calls w) + j) \<noteq> None" by blast
      then show "\<exists>k<length (s # ss). failing w (calls w + k) \<noteq> None"
        by (intro exI[of _ "Suc j"]) simp
    qed
    with Cons.IH[of ?w] w show ?thesis by simp
  qed
qed

text \<open>
  C9 (amended). The error the emission returns is the error of the encoder's writes and
  nothing else: it is returned exactly when one of the Write calls the encoder makes
  (the third call on the writer and the following ones) fails. When no Write fails, the
  writer receives the XML header, the DOCTYPE line with its newline, the encoder's
  buffers for prefix "" and an indent of two blanks, and a final newline, in this order,
  and no error is returned. A run of Convert that gets as far as the tree ends with
  this emission.
\<close>

theorem report_emission:
  "snd (emitReport env out cov) =
     map_option (\<lambda>e. Returned (WriteError e))
       (snd (writeAll (fst (Write (fst (Write out xml_Header)) (DTDDecl @ [CHR 0x0A])))
               (encode env [] ''  '' cov)))
   \<and> ((snd (emitReport env out cov) \<noteq> None) =
        (\<exists>k<length (encode env [] ''  '' cov). failing out (calls out + 2 + k) \<noteq> None))
   \<and> ((\<forall>k. failing out k = None) \<longrightarrow>
        emitReport env out cov =
          (out\<lparr>written := written out @ [xml_Header, DTDDecl @ [CHR 0x0A]] @ encode env [] ''  '' cov
                    @ [[CHR 0x0A]],
                calls := calls out + 3 + length (encode env [] ''  '' cov)\<rparr>, None))
   \<and> (ParseProfiles srtB srtP ign inp = Inr profiles \<longrightarrow>
        getPackages env profiles tags = Inr pkgs \<longrightarrow>
        parseProfiles env ign profiles (snd (collectPackages pkgs ([], Map.empty)))
               \<lparr>Sources = fst (collectPackages pkgs ([], Map.empty)), Packages = [],
                Timestamp = now_ms env, LinesValid = 0, LinesCovered = 0, LineRate = 0\<rparr> = (cov, None) \<longrightarrow>
        Convert env srtB srtP inp out ign tags = emitReport env out cov)"
proof -
  let ?o2 = "fst (Write (fst (Write out xml_Header)) (DTDDecl @ [CHR 0x0A]))"
  let ?ch = "encode env [] ''  '' cov"
  have a: "snd (emitReport env out cov) =
     map_option (\<lambda>e. Returned (WriteError e)) (snd (writeAll ?o2 ?ch))"
    by (cases "writeAll ?o2 ?ch") (auto simp: emitReport_def Let_def split: option.splits)
  have f2: "failing ?o2 = failing out" "calls ?o2 = calls out + 2"
    by (simp_all add: Write_fields)
  have b: "(snd (emitReport env out cov) \<noteq> None) =
        (\<exists>k<length ?ch. failing out (calls out + 2 + k) \<noteq> None)"
    unfolding a using writeAll_fails_iff[of ?o2 ?ch] by (simp add: f2)
  have c: "(\<forall>k. failing out k = None) \<longrightarrow>
        emitReport env out cov =
          (out\<lparr>written := written out @ [xml_Header, DTDDecl @ [CHR 0x0A]] @ ?ch @ [[CHR 0x0A]],
                calls := calls out + 3 + length ?ch\<rparr>, None)"
  proof
    assume ok: "\<forall>k. failing out k = None"
    let ?w2 = "out\<lparr>written := written out @ [xml_Header, DTDDecl @ [CHR 0x0A]], calls := calls out + 2\<rparr>"
    have o2: "?o2 = ?w2" using ok by (simp add: Write_def)
    have "\<forall>k. failing ?w2 k = None" using ok by simp
    from writeAll_ok[OF this, of ?ch]
    have wa: "writeAll ?w2 ?ch = (?w2\<lparr>written := written ?w2 @ ?ch, calls := calls ?w2 + length ?ch\<rparr>, None)" .
    show "emitReport env out cov =
          (out\<lparr>written := written out @ [xml_Header, DTDDecl @ [CHR 0x0A]] @ ?ch @ [[CHR 0x0A]],
                calls := calls out + 3 + length ?ch\<rparr>, None)"
      using ok unfolding emitReport_def Let_def o2 wa by (simp add: Write_def)
  qed
  have d: "ParseProfiles srtB srtP ign inp = Inr profiles \<longrightarrow>
        getPackages env profiles tags = Inr pkgs \<longrightarrow>
        parseProfiles env ign profiles (snd (collectPackages pkgs ([], Map.empty)))
               \<lparr>Sources = fst (collectPackages pkgs ([], Map.empty)), Packages = [],
                Timestamp = now_ms env, LinesValid = 0, LinesCovered = 0, LineRate = 0\<rparr> = (cov, None) \<longrightarrow>
        Convert env srtB srtP inp out ign tags = emitReport env out cov"
    by (auto simp: Convert_def split: prod.splits)
  from a b c d show ?thesis by (intro conjI)
qed


text \<open>
  The theorem for the input \<^verbatim>\<open>mode: set\<close>: with a writer that never fails, and with one
  that always fails (the closed pipe of TestConvertOutputError).
\<close>

theorem report_emission_witness:
  "Convert
     \<lparr>byFiles = False, parseFile = (\<lambda>_. Inr []), readFile = (\<lambda>_. Inr []),
      loadPackages = (\<lambda>_ _. Inr []), now_ms = 1700000000000, encode = (\<lambda>_ _ _. [''<coverage/>''])\<rparr>
     (insertionSort blocksByStart_Less) (insertionSort byFileName_Less)
     \<lparr>scanned = [''mode: set''], scan_err = None\<rparr>
     \<lparr>written = [], calls = 0, failing = (\<lambda>_. None)\<rparr> (\<lambda>_ _. False) [] =
     (\<lparr>written = [xml_Header, DTDDecl @ [CHR 0x0A], ''<coverage/>'', [CHR 0x0A]], calls = 4,
       failing = (\<lambda>_. None)\<rparr>, None)
   \<and> snd (Convert
     \<lparr>byFiles = False, parseFile = (\<lambda>_. Inr []), readFile = (\<lambda>_. Inr []),
      loadPackages = (\<lambda>_ _. Inr []), now_ms = 1700000000000, encode = (\<lambda>_ _ _. [''<coverage/>''])\<rparr>
     (insertionSort blocksByStart_Less) (insertionSort byFileName_Less)
     \<lparr>scanned = [''mode: set''], scan_err = None\<rparr>
     \<lparr>written = [], calls = 0, failing = (\<lambda>_. Some ''io: read/write on closed pipe'')\<rparr> (\<lambda>_ _. False) []) =
     Some (Returned (WriteError ''io: read/write on closed pipe''))"
proof -
  let ?env = "\<lparr>byFiles = False, parseFile = (\<lambda>_. Inr []), readFile = (\<lambda>_. Inr []),
      loadPackages = (\<lambda>_ _. Inr []), now_ms = 1700000000000, encode = (\<lambda>_ _ _. [''<coverage/>''])\<rparr>"
  let ?cov = "\<lparr>Sources = [], Packages = [], Timestamp = 1700000000000, LinesValid = 0, LinesCovered = 0, LineRate = 0\<rparr>"
  have pp: "ParseProfiles (insertionSort blocksByStart_Less) (insertionSort byFileName_Less) (\<lambda>_ _. False)
      \<lparr>scanned = [''mode: set''], scan_err = None\<rparr> = Inr []"
    by (simp add: ParseProfiles_def parseLine_def bad_mode_line_def HasPrefix_def
          generateSortedProfilesSlice_def insertionSort_def)
  have gp: "getPackages ?env [] [] = Inr []" by (simp add: getPackages_def)
  have pr: "parseProfiles ?env (\<lambda>_ _. False) [] (snd (collectPackages [] ([], Map.empty)))
      \<lparr>Sources = fst (collectPackages [] ([], Map.empty)), Packages = [],
       Timestamp = now_ms ?env, LinesValid = 0, LinesCovered = 0, LineRate = 0\<rparr> = (?cov, None)"
    by (simp add: parseProfiles_def CoverageMethodLines_def NumLinesWithHits_def HitRate_def rate_def)

  note r = report_emission[where env = ?env and cov = ?cov and srtB = "insertionSort blocksByStart_Less"
      and srtP = "insertionSort byFileName_Less" and ign = "\<lambda>_ _. False" and inp = "\<lparr>scanned = [''mode: set''], scan_err = None\<rparr>"
      and profiles = "[]" and tags = "[]" and pkgs = "[]"]
  have ok: "\<forall>k. failing \<lparr>written = [], calls = 0, failing = (\<lambda>_. None)\<rparr> k = None" by simp
  from r[where out = "\<lparr>written = [], calls = 0, failing = (\<lambda>_. None)\<rparr>"] pp gp pr ok
  have a: "Convert
     \<lparr>byFiles = False, parseFile = (\<lambda>_. Inr []), readFile = (\<lambda>_. Inr []),
      loadPackages = (\<lambda>_ _. Inr []), now_ms = 1700000000000, encode = (\<lambda>_ _ _. [''<coverage/>''])\<rparr>
     (insertionSort blocksByStart_Less) (insertionSort byFileName_Less)
     \<lparr>scanned = [''mode: set''], scan_err = None\<rparr>
     \<lparr>written = [], calls = 0, failing = (\<lambda>_. None)\<rparr> (\<lambda>_ _. False) [] =
     (\<lparr>written = [xml_Header, DTDDecl @ [CHR 0x0A], ''<coverage/>'', [CHR 0x0A]], calls = 4,
       failing = (\<lambda>_. None)\<rparr>, None)"
    by simp
  from r[where out = "\<lparr>written = [], calls = 0, failing = (\<lambda>_. Some ''io: read/write on closed pipe'')\<rparr>"] pp gp pr
  have b: "snd (Convert
     \<lparr>byFiles = False, parseFile = (\<lambda>_. Inr []), readFile = (\<lambda>_. Inr []),
      loadPackages = (\<lambda>_ _. Inr []), now_ms = 1700000000000, encode = (\<lambda>_ _ _. [''<coverage/>''])\<rparr>
     (insertionSort blocksByStart_Less) (insertionSort byFileName_Less)
     \<lparr>scanned = [''mode: set''], scan_err = None\<rparr>
     \<lparr>written = [], calls = 0, failing = (\<lambda>_. Some ''io: read/write on closed pipe'')\<rparr> (\<lambda>_ _. False) []) =
     Some (Returned (WriteError ''io: read/write on closed pipe''))"
    by (simp add: Write_def)
  from a b show ?thesis by (rule conjI)
qed

text \<open>
  C9 as stated fails: when only the first Write fails, Convert returns no error, and
  what was written starts with the DOCTYPE line: the header is missing.
\<close>

theorem discarded_write_error_counterexample:
  "snd (Convert
     \<lparr>byFiles = False, parseFile = (\<lambda>_. Inr []), readFile = (\<lambda>_. Inr []),
      loadPackages = (\<lambda>_ _. Inr []), now_ms = 1700000000000, encode = (\<lambda>_ _ _. [''<coverage/>''])\<rparr>
     (insertionSort blocksByStart_Less) (insertionSort byFileName_Less)
     \<lparr>scanned = [''mode: set''], scan_err = None\<rparr>
     \<lparr>written = [], calls = 0, failing = (\<lambda>k. if k = 0 then Some ''short write'' else None)\<rparr> (\<lambda>_ _. False) []) = None
   \<and> written (fst (Convert
     \<lparr>byFiles = False, parseFile = (\<lambda>_. Inr []), readFile = (\<lambda>_. Inr []),
      loadPackages = (\<lambda>_ _. Inr []), now_ms = 1700000000000, encode = (\<lambda>_ _ _. [''<coverage/>''])\<rparr>
     (insertionSort blocksByStart_Less) (insertionSort byFileName_Less)
     \<lparr>scanned = [''mode: set''], scan_err = None\<rparr>
     \<lparr>written = [], calls = 0, failing = (\<lambda>k. if k = 0 then Some ''short write'' else None)\<rparr> (\<lambda>_ _. False) [])) = [DTDDecl @ [CHR 0x0A], ''<coverage/>'', [CHR 0x0A]]"
  by (simp add: Convert_def ParseProfiles_def parseLine_def bad_mode_line_def HasPrefix_def
        generateSortedProfilesSlice_def insertionSort_def getPackages_def
        parseProfiles_def CoverageMethodLines_def NumLinesWithHits_def HitRate_def rate_def
        emitReport_def Write_def Let_def)

section \<open>One package per name (C1)\<close>

















section \<open>Merging the blocks of the same span (C4)\<close>

lemma same_span_iff: "same_span a b = (block_span a = block_span b)"
  by (auto simp: same_span_def block_span_def block_start_def block_end_def)

lemma Less_start: "blocksByStart_Less a b \<Longrightarrow> block_start a \<noteq> block_start b"
  by (auto simp: blocksByStart_Less_def block_start_def)

lemma start_le_cases: "start_le a b \<Longrightarrow> block_start a = block_start b \<or> blocksByStart_Less a b"
  by (auto simp: blocksByStart_Less_def block_start_def start_le_def)

lemma Less_start_le_trans: "blocksByStart_Less a b \<Longrightarrow> start_le b c \<Longrightarrow> blocksByStart_Less a c"
  by (auto simp: blocksByStart_Less_def start_le_def)

lemma Less_span_cong: "block_span x = block_span y \<Longrightarrow> blocksByStart_Less a x = blocksByStart_Less a y"
  by (auto simp: blocksByStart_Less_def block_span_def block_start_def)

lemma ends_agreeD:
  assumes "ends_agree bs" and x: "x \<in> set bs" and y: "y \<in> set bs"
    and e: "block_start x = block_start y"
  shows "block_end x = block_end y"
proof -
  from assms(1) have h: "\<forall>x\<in>set bs. \<forall>y\<in>set bs. block_start x = block_start y \<longrightarrow> block_end x = block_end y"
    unfolding ends_agree_def .
  from bspec[OF h x] have "\<forall>y\<in>set bs. block_start x = block_start y \<longrightarrow> block_end x = block_end y" .
  from bspec[OF this y] e show ?thesis by (rule mp)
qed

lemma ends_agree_span: "block_span ` set bs \<subseteq> block_span ` set cs \<Longrightarrow> ends_agree cs \<Longrightarrow> ends_agree bs"
  unfolding ends_agree_def
proof (intro ballI impI)
  fix x y assume s: "block_span ` set bs \<subseteq> block_span ` set cs"
    and h: "\<forall>x\<in>set cs. \<forall>y\<in>set cs. block_start x = block_start y \<longrightarrow> block_end x = block_end y"
    and x: "x \<in> set bs" and y: "y \<in> set bs" and e: "block_start x = block_start y"
  from s x obtain x' where x': "x' \<in> set cs" "block_span x = block_span x'" by blast
  from s y obtain y' where y': "y' \<in> set cs" "block_span y = block_span y'" by blast
  from h x'(1) y'(1) have imp: "block_start x' = block_start y' \<longrightarrow> block_end x' = block_end y'"
    by blast
  from x'(2) have ex: "block_start x = block_start x'" "block_end x = block_end x'"
    by (simp_all add: block_span_def)
  from y'(2) have ey: "block_start y = block_start y'" "block_end y = block_end y'"
    by (simp_all add: block_span_def)
  from imp e ex ey show "block_end x = block_end y" by simp
qed

lemma stmts_agree_merged:
  assumes sp: "block_span a' = block_span a" "block_span b = block_span a"
      and ns: "NumStmt a' = NumStmt a" "NumStmt b = NumStmt a"
      and ag: "stmts_agree (a' # bs)"
  shows "stmts_agree (a # b # bs)"
  unfolding stmts_agree_def
proof (intro ballI impI)
  fix x y assume x: "x \<in> set (a # b # bs)" and y: "y \<in> set (a # b # bs)"
    and e: "block_span x = block_span y"
  have key: "\<exists>z'\<in>set (a' # bs). block_span z' = block_span z \<and> NumStmt z' = NumStmt z"
    if "z \<in> set (a # b # bs)" for z
  proof -
    from that consider "z = a" | "z = b" | "z \<in> set bs" by auto
    then show ?thesis
    proof cases
      case 1
      then show ?thesis using sp ns by simp
    next
      case 2
      then show ?thesis using sp ns by simp
    next
      case 3
      then show ?thesis by auto
    qed
  qed
  from key[OF x] obtain x' where x': "x' \<in> set (a' # bs)" "block_span x' = block_span x"
    "NumStmt x' = NumStmt x" by blast
  from key[OF y] obtain y' where y': "y' \<in> set (a' # bs)" "block_span y' = block_span y"
    "NumStmt y' = NumStmt y" by blast
  from ag x'(1) y'(1) have "block_span x' = block_span y' \<longrightarrow> NumStmt x' = NumStmt y'"
    unfolding stmts_agree_def by blast
  with x' y' e show "NumStmt x = NumStmt y" by simp
qed

lemma stmts_agree_fresh:
  assumes na: "\<forall>z\<in>set bs. block_span a \<noteq> block_span z" and ag: "stmts_agree bs"
  shows "stmts_agree (a # bs)"
  unfolding stmts_agree_def
proof (intro ballI impI)
  fix x y assume x: "x \<in> set (a # bs)" and y: "y \<in> set (a # bs)"
    and e: "block_span x = block_span y"
  consider "x = a" "y = a" | "x = a" "y \<in> set bs" | "x \<in> set bs" "y = a"
    | "x \<in> set bs" "y \<in> set bs" using x y by auto
  then show "NumStmt x = NumStmt y"
  proof cases
    case 1
    then show ?thesis by simp
  next
    case 2
    then show ?thesis using na e by blast
  next
    case 3
    then show ?thesis using na e by metis
  next
    case 4
    with ag have "block_span x = block_span y \<longrightarrow> NumStmt x = NumStmt y"
      unfolding stmts_agree_def by blast
    with e show ?thesis by simp
  qed
qed

lemma Less_all_spans:
  assumes ay: "\<forall>y\<in>set cs. blocksByStart_Less a y"
      and sp: "block_span ` set r = block_span ` set cs"
  shows "\<forall>x\<in>set r. blocksByStart_Less a x"
proof
  fix x assume "x \<in> set r"
  then have "block_span x \<in> block_span ` set cs" using sp by blast
  then obtain y where y: "y \<in> set cs" "block_span x = block_span y" by auto
  from ay y(1) have "blocksByStart_Less a y" by blast
  with Less_span_cong[OF y(2)] show "blocksByStart_Less a x" by simp
qed

lemma Less_span_neq: "blocksByStart_Less a z \<Longrightarrow> block_span a \<noteq> block_span z"
  using Less_start[of a z] by (auto simp: block_span_def)

lemma mergeAdjacent_strict:
  "mergeAdjacent mode bs = Inr rs \<Longrightarrow> sorted_wrt start_le bs \<Longrightarrow> ends_agree bs \<Longrightarrow>
     sorted_wrt blocksByStart_Less rs \<and> stmts_agree bs"
proof (induction mode bs arbitrary: rs rule: mergeAdjacent.induct)
  case (1 mode)
  then show ?case by (simp add: stmts_agree_def)
next
  case (2 mode a)
  then show ?case by (auto simp: stmts_agree_def)
next
  case (3 mode a b bs)
  show ?case
  proof (cases "same_span b a")
    case True
    define a' where "a' = a\<lparr>Count := combineCount mode (Count a) (Count b)\<rparr>"
    from True "3.prems"(1) have eq: "NumStmt b = NumStmt a"
      by (simp split: if_splits)
    with True "3.prems"(1) have r: "mergeAdjacent mode (a' # bs) = Inr rs"
      by (simp add: a'_def)
    have sl: "\<And>x. start_le a' x = start_le a x" by (simp add: start_le_def a'_def)
    from "3.prems"(2) have s: "sorted_wrt start_le (a' # bs)" by (simp add: sl)
    have sp: "block_span a' = block_span a" "block_span b = block_span a"
      using True by (simp_all add: same_span_iff a'_def block_span_def block_start_def block_end_def)
    have na: "NumStmt a' = NumStmt a" by (simp add: a'_def)
    have sub: "block_span ` set (a' # bs) \<subseteq> block_span ` set (a # b # bs)"
      using sp by auto
    have ea: "ends_agree (a' # bs)" by (rule ends_agree_span[OF sub "3.prems"(3)])
    have neq: "\<not> NumStmt b \<noteq> NumStmt a" using eq by simp
    from "3.IH"(1)[OF True neq r[unfolded a'_def] s[unfolded a'_def] ea[unfolded a'_def]]
    have ih: "sorted_wrt blocksByStart_Less rs" "stmts_agree (a' # bs)"
      by (simp_all add: a'_def)
    from stmts_agree_merged[OF sp na eq ih(2)] ih(1) show ?thesis by simp
  next
    case False
    from False "3.prems"(1) obtain r where r: "mergeAdjacent mode (b # bs) = Inr r" and rs: "rs = a # r"
      by (cases "mergeAdjacent mode (b # bs)") auto
    have sub: "block_span ` set (b # bs) \<subseteq> block_span ` set (a # b # bs)" by auto
    have eb: "ends_agree (b # bs)" by (rule ends_agree_span[OF sub "3.prems"(3)])
    from "3.prems"(2) have sb: "sorted_wrt start_le (b # bs)" by simp
    from "3.IH"(2)[OF False r sb eb]
    have ih: "sorted_wrt blocksByStart_Less r" "stmts_agree (b # bs)" by simp_all
    from mergeAdjacent_sorted[OF r sb]
    have spans: "block_span ` set r = block_span ` set (b # bs)" by simp
    have "block_start a \<noteq> block_start b"
    proof
      assume st: "block_start a = block_start b"
      have "a \<in> set (a # b # bs)" "b \<in> set (a # b # bs)" by simp_all
      from ends_agreeD[OF "3.prems"(3) this st] have "block_end a = block_end b" .
      with st have "block_span b = block_span a" by (simp add: block_span_def)
      with False show False by (simp add: same_span_iff)
    qed
    moreover have "start_le a b" using "3.prems"(2) by simp
    ultimately have ab: "blocksByStart_Less a b" using start_le_cases by blast
    have ay: "\<forall>y\<in>set (b # bs). blocksByStart_Less a y"
    proof
      fix y assume "y \<in> set (b # bs)"
      then have "y = b \<or> start_le b y" using sb by auto
      then show "blocksByStart_Less a y" using ab Less_start_le_trans by blast
    qed
    from Less_all_spans[OF ay spans] have ar: "\<forall>x\<in>set r. blocksByStart_Less a x" .
    then have 1: "sorted_wrt blocksByStart_Less rs" using ih(1) rs by simp
    have "\<forall>z\<in>set (b # bs). block_span a \<noteq> block_span z"
      using ay Less_span_neq by blast
    from stmts_agree_fresh[OF this ih(2)] 1 show ?thesis by simp
  qed
qed

lemma strict_distinct_spans:
  "sorted_wrt blocksByStart_Less rs \<Longrightarrow> distinct (map block_span rs)"
proof (induction rs)
  case Nil
  then show ?case by simp
next
  case (Cons a rs)
  then have "\<forall>x\<in>set rs. block_span a \<noteq> block_span x"
    using Less_span_neq by simp
  with Cons show ?case by auto
qed

lemma mset_two: "mset xs = {#a, b#} \<Longrightarrow> xs = [a, b] \<or> xs = [b, a]"
proof -
  assume m: "mset xs = {#a, b#}"
  then have "length xs = 2" by (metis size_mset size_add_mset size_empty numeral_2_eq_2)
  then obtain x y where xs: "xs = [x, y]"
    by (metis (no_types, opaque_lifting) One_nat_def Suc_1 length_0_conv length_Suc_conv)
  with m show ?thesis by (auto simp: add_eq_conv_ex)
qed

lemma stmts_agreeD:
  assumes "stmts_agree bs" and x: "x \<in> set bs" and y: "y \<in> set bs"
    and e: "block_span x = block_span y"
  shows "NumStmt x = NumStmt y"
proof -
  from assms(1) have h: "\<forall>x\<in>set bs. \<forall>y\<in>set bs. block_span x = block_span y \<longrightarrow> NumStmt x = NumStmt y"
    unfolding stmts_agree_def .
  from bspec[OF h x] have "\<forall>y\<in>set bs. block_span x = block_span y \<longrightarrow> NumStmt x = NumStmt y" .
  from bspec[OF this y] e show ?thesis by (rule mp)
qed

lemma stmts_agree_sub:
  assumes sub: "\<And>x. x \<in> set bs \<Longrightarrow> \<exists>y\<in>set cs. block_span x = block_span y \<and> NumStmt x = NumStmt y"
    and ag: "stmts_agree cs"
  shows "stmts_agree bs"
  unfolding stmts_agree_def
proof (intro ballI impI)
  fix x y assume x: "x \<in> set bs" and y: "y \<in> set bs" and e: "block_span x = block_span y"
  from sub[OF x] obtain x' where x': "x' \<in> set cs" "block_span x = block_span x'" "NumStmt x = NumStmt x'"
    by blast
  from sub[OF y] obtain y' where y': "y' \<in> set cs" "block_span y = block_span y'" "NumStmt y = NumStmt y'"
    by blast
  from e x'(2) y'(2) have "block_span x' = block_span y'" by simp
  from stmts_agreeD[OF ag x'(1) y'(1) this] x'(3) y'(3) show "NumStmt x = NumStmt y" by simp
qed

lemma mergeAdjacent_failure:
  "mergeAdjacent mode bs = Inl f \<Longrightarrow> \<exists>n k. f = Returned (InconsistentNumStmt n k)"
proof (induction mode bs rule: mergeAdjacent.induct)
  case (1 mode)
  then show ?case by simp
next
  case (2 mode a)
  then show ?case by simp
next
  case (3 mode a b bs)
  show ?case
  proof (cases "same_span b a")
    case True
    show ?thesis
    proof (cases "NumStmt b \<noteq> NumStmt a")
      case True
      with \<open>same_span b a\<close> "3.prems" show ?thesis by auto
    next
      case False
      with True "3.prems" have "mergeAdjacent mode (a\<lparr>Count := combineCount mode (Count a) (Count b)\<rparr> # bs) = Inl f"
        by simp
      from "3.IH"(1)[OF True False this] show ?thesis .
    qed
  next
    case False
    with "3.prems" have "mergeAdjacent mode (b # bs) = Inl f"
      by (cases "mergeAdjacent mode (b # bs)") simp_all
    from "3.IH"(2)[OF False this] show ?thesis .
  qed
qed

lemma mergeAdjacent_total:
  "stmts_agree bs \<Longrightarrow> \<exists>rs. mergeAdjacent mode bs = Inr rs"
proof (induction mode bs rule: mergeAdjacent.induct)
  case (1 mode)
  then show ?case by simp
next
  case (2 mode a)
  then show ?case by simp
next
  case (3 mode a b bs)
  show ?case
  proof (cases "same_span b a")
    case True
    then have sp: "block_span b = block_span a" by (simp add: same_span_iff)
    have "b \<in> set (a # b # bs)" "a \<in> set (a # b # bs)" by simp_all
    from stmts_agreeD[OF "3.prems" this sp] have eq: "NumStmt b = NumStmt a" .
    then have neq: "\<not> NumStmt b \<noteq> NumStmt a" by simp
    have "stmts_agree (a\<lparr>Count := combineCount mode (Count a) (Count b)\<rparr> # bs)"
    proof (rule stmts_agree_sub[OF _ "3.prems"])
      fix x assume "x \<in> set (a\<lparr>Count := combineCount mode (Count a) (Count b)\<rparr> # bs)"
      then consider "x = a\<lparr>Count := combineCount mode (Count a) (Count b)\<rparr>" | "x \<in> set bs" by auto
      then show "\<exists>y\<in>set (a # b # bs). block_span x = block_span y \<and> NumStmt x = NumStmt y"
      proof cases
        case 1
        then have "block_span x = block_span a \<and> NumStmt x = NumStmt a"
          by (simp add: block_span_def block_start_def block_end_def)
        then show ?thesis by simp
      next
        case 2
        then show ?thesis by auto
      qed
    qed
    from "3.IH"(1)[OF True neq this] True eq show ?thesis by simp
  next
    case False
    have "stmts_agree (b # bs)"
    proof (rule stmts_agree_sub[OF _ "3.prems"])
      fix x assume "x \<in> set (b # bs)"
      then have "x \<in> set (a # b # bs)" by simp
      then show "\<exists>y\<in>set (a # b # bs). block_span x = block_span y \<and> NumStmt x = NumStmt y" by blast
    qed
    from "3.IH"(2)[OF False this] obtain r where "mergeAdjacent mode (b # bs) = Inr r" by blast
    with False show ?thesis by simp
  qed
qed

lemma ends_agree_set: "set bs = set cs \<Longrightarrow> ends_agree bs = ends_agree cs"
  by (simp add: ends_agree_def)

lemma stmts_agree_set: "set bs = set cs \<Longrightarrow> stmts_agree bs = stmts_agree cs"
  by (simp add: stmts_agree_def)

lemma combineCount_commute: "combineCount mode c d = combineCount mode d c"
  by (simp add: combineCount_def or.commute add.commute)

lemma same_fields:
  fixes b c :: ProfileBlock
  assumes "same_span b c" and "NumStmt b = NumStmt c"
  shows "c\<lparr>Count := x\<rparr> = b\<lparr>Count := x\<rparr>"
  using assms by (cases b, cases c) (simp add: same_span_def)

lemma same_span_sym: "same_span b c = same_span c b"
  by (auto simp: same_span_def)

lemma srt_two:
  assumes "sorts_by blocksByStart_Less srt"
  shows "srt [b, c] = [b, c] \<or> srt [b, c] = [c, b]"
proof -
  from assms have "mset (srt [b, c]) = mset [b, c]" by (simp add: sorts_by_def)
  then have "mset (srt [b, c]) = {#b, c#}" by simp
  from mset_two[OF this] show ?thesis .
qed

lemma sorts_by_nonempty:
  assumes "sorts_by lt srt" and "xs \<noteq> []"
  shows "srt xs \<noteq> []"
proof
  assume "srt xs = []"
  moreover from assms(1) have "mset (srt xs) = mset xs" by (simp add: sorts_by_def)
  ultimately show False using assms(2) by simp
qed

lemma mergeBlocks_two_same:
  assumes srt: "sorts_by blocksByStart_Less srt" and sp: "same_span b c" and ns: "NumStmt b = NumStmt c"
  shows "mergeBlocks srt mode [b, c] = Inr [b\<lparr>Count := combineCount mode (Count b) (Count c)\<rparr>]"
proof -
  have ne: "srt [b, c] \<noteq> []" by (rule sorts_by_nonempty[OF srt]) simp
  have m: "mergeBlocks srt mode [b, c] = mergeAdjacent mode (srt [b, c])"
    by (rule mergeBlocks_mergeAdjacent[where srt = srt and blocks = "[b, c]", OF ne])
  from srt_two[OF srt, of b c] show ?thesis
  proof
    assume "srt [b, c] = [b, c]"
    with m sp ns show ?thesis by (simp add: same_span_sym[of c b])
  next
    assume s: "srt [b, c] = [c, b]"
    have "c\<lparr>Count := combineCount mode (Count c) (Count b)\<rparr> =
          b\<lparr>Count := combineCount mode (Count b) (Count c)\<rparr>"
      using same_fields[OF sp ns] by (simp add: combineCount_commute[of mode "Count c"])
    with m s sp ns show ?thesis by simp
  qed
qed

lemma mergeBlocks_two_differ:
  assumes srt: "sorts_by blocksByStart_Less srt" and sp: "same_span b c" and ns: "NumStmt b \<noteq> NumStmt c"
  shows "mergeBlocks srt mode [b, c] = Inl (Returned (InconsistentNumStmt (NumStmt b) (NumStmt c)))
       \<or> mergeBlocks srt mode [b, c] = Inl (Returned (InconsistentNumStmt (NumStmt c) (NumStmt b)))"
proof -
  have ne: "srt [b, c] \<noteq> []" by (rule sorts_by_nonempty[OF srt]) simp
  have m: "mergeBlocks srt mode [b, c] = mergeAdjacent mode (srt [b, c])"
    by (rule mergeBlocks_mergeAdjacent[where srt = srt and blocks = "[b, c]", OF ne])
  from srt_two[OF srt, of b c] show ?thesis
  proof
    assume "srt [b, c] = [b, c]"
    with m sp ns show ?thesis by (simp add: same_span_sym[of c b])
  next
    assume s: "srt [b, c] = [c, b]"
    with m sp ns show ?thesis by simp
  qed
qed

lemma mergeBlocks_agree:
  assumes srt: "sorts_by blocksByStart_Less srt" and ne: "blocks \<noteq> []" and ea: "ends_agree blocks"
  shows "if stmts_agree blocks
         then (\<exists>rs. mergeBlocks srt mode blocks = Inr rs \<and> distinct (map block_span rs)
                 \<and> block_span ` set rs = block_span ` set blocks)
         else (\<exists>n k. mergeBlocks srt mode blocks = Inl (Returned (InconsistentNumStmt n k)))"
proof -
  from sorts_by_blocks_start_le[OF srt, of blocks]
  have so: "sorted_wrt start_le (srt blocks)" and se: "set (srt blocks) = set blocks" by simp_all
  have m: "mergeBlocks srt mode blocks = mergeAdjacent mode (srt blocks)"
    by (rule mergeBlocks_mergeAdjacent[where srt = srt and blocks = blocks, OF sorts_by_nonempty[OF srt ne]])
  from ea ends_agree_set[OF se] have ea': "ends_agree (srt blocks)" by simp
  show ?thesis
  proof (cases "stmts_agree blocks")
    case True
    with stmts_agree_set[OF se] have "stmts_agree (srt blocks)" by simp
    from mergeAdjacent_total[OF this] obtain rs where rs: "mergeAdjacent mode (srt blocks) = Inr rs"
      by blast
    from mergeAdjacent_strict[OF rs so ea'] have "sorted_wrt blocksByStart_Less rs" by simp
    from strict_distinct_spans[OF this] have d: "distinct (map block_span rs)" .
    from mergeAdjacent_sorted[OF rs so] se have "block_span ` set rs = block_span ` set blocks"
      by simp
    with d rs m True show ?thesis by simp
  next
    case False
    show ?thesis
    proof (cases "mergeAdjacent mode (srt blocks)")
      case (Inl f)
      from mergeAdjacent_failure[OF Inl] Inl m False show ?thesis by auto
    next
      case (Inr rs)
      from mergeAdjacent_strict[OF Inr so ea'] have "stmts_agree (srt blocks)" by simp
      with stmts_agree_set[OF se] False show ?thesis by simp
    qed
  qed
qed

lemma mergeSame_each:
  "mergeSameLocationSamples srt files mode = Inr files' \<Longrightarrow>
     list_all2 (\<lambda>kp kp'. fst kp' = fst kp
        \<and> mergeBlocks srt mode (Blocks (snd kp)) = Inr (Blocks (snd kp'))
        \<and> snd kp' = (snd kp)\<lparr>Blocks := Blocks (snd kp')\<rparr>) files files'"
proof (induction files arbitrary: files')
  case Nil
  then show ?case by simp
next
  case (Cons kp fs)
  obtain k p where kp: "kp = (k, p)" by (cases kp)
  from Cons.prems kp obtain bs fs'' where
    b: "mergeBlocks srt mode (Blocks p) = Inr bs" and
    f: "mergeSameLocationSamples srt fs mode = Inr fs''" and
    e: "files' = (k, p\<lparr>Blocks := bs\<rparr>) # fs''"
    by (auto split: sum.splits)
  from Cons.IH[OF f] b e kp show ?case by simp
qed

lemma mergeSame_fails:
  "(k, p) \<in> set files \<Longrightarrow> mergeBlocks srt mode (Blocks p) = Inl f \<Longrightarrow>
     \<exists>f'. mergeSameLocationSamples srt files mode = Inl f'"
proof (induction files)
  case Nil
  then show ?case by simp
next
  case (Cons kp fs)
  obtain k' p' where kp: "kp = (k', p')" by (cases kp)
  show ?case
  proof (cases "mergeBlocks srt mode (Blocks p')")
    case (Inl g)
    with kp show ?thesis by simp
  next
    case (Inr bs)
    with Cons.prems kp have "(k, p) \<in> set fs" by auto
    from Cons.IH[OF this Cons.prems(2)] obtain f' where "mergeSameLocationSamples srt fs mode = Inl f'"
      by blast
    with Inr kp show ?thesis by simp
  qed
qed

text \<open>
  C4 (amended). With any sort that meets the contract of sort.Sort, the program's share
  for one file is: sort the blocks by (start line, start column), then merge adjacent
  blocks of the same span as \<open>mergeAdjacent\<close> words it (differing statement counts are
  the InconsistentNumStmt error; the counts are combined by bitwise OR in mode "set" and
  by addition, wrapping at 64 bits, in any other mode). Two blocks of the same span that
  are all the blocks of a file become one block with the combined count, or the error
  when their statement counts differ. When blocks of a file that start at the same
  position also end at the same position, the merge succeeds exactly when blocks of the
  same span agree on the statement count; the result then has every span of the input
  exactly once, and otherwise it is the InconsistentNumStmt error. Every file is treated
  so, and an error in one file is an error of mergeSameLocationSamples and of
  ParseProfiles.
\<close>

theorem sort_and_merge_adjacent:
  assumes "sorts_by blocksByStart_Less srt"
  shows
   "(blocks \<noteq> [] \<longrightarrow>
       sorted_wrt start_le (srt blocks) \<and> mset (srt blocks) = mset blocks
       \<and> mergeBlocks srt mode blocks = mergeAdjacent mode (srt blocks))
    \<and> (same_span b c \<and> NumStmt b = NumStmt c \<longrightarrow>
       mergeBlocks srt mode [b, c] = Inr [b\<lparr>Count := combineCount mode (Count b) (Count c)\<rparr>])
    \<and> (same_span b c \<and> NumStmt b \<noteq> NumStmt c \<longrightarrow>
       mergeBlocks srt mode [b, c] = Inl (Returned (InconsistentNumStmt (NumStmt b) (NumStmt c)))
       \<or> mergeBlocks srt mode [b, c] = Inl (Returned (InconsistentNumStmt (NumStmt c) (NumStmt b))))
    \<and> (blocks \<noteq> [] \<and> ends_agree blocks \<longrightarrow>
       (if stmts_agree blocks
        then (\<exists>rs. mergeBlocks srt mode blocks = Inr rs \<and> distinct (map block_span rs)
                \<and> block_span ` set rs = block_span ` set blocks)
        else (\<exists>n k. mergeBlocks srt mode blocks = Inl (Returned (InconsistentNumStmt n k)))))
    \<and> (mergeSameLocationSamples srt files mode = Inr files' \<longrightarrow>
       list_all2 (\<lambda>kp kp'. fst kp' = fst kp
          \<and> mergeBlocks srt mode (Blocks (snd kp)) = Inr (Blocks (snd kp'))
          \<and> snd kp' = (snd kp)\<lparr>Blocks := Blocks (snd kp')\<rparr>) files files')
    \<and> ((k, p) \<in> set files \<and> mergeBlocks srt mode (Blocks p) = Inl f \<longrightarrow>
       (\<exists>f'. mergeSameLocationSamples srt files mode = Inl f'))
    \<and> (scanLines ign (scanned inp) ([], []) = Inr (mode, files) \<and> scan_err inp = None
        \<and> mergeSameLocationSamples srt files mode = Inl f \<longrightarrow>
       ParseProfiles srt srtP ign inp = Inl f)"
proof (intro conjI impI)
  assume ne: "blocks \<noteq> []"
  from assms show "mset (srt blocks) = mset blocks" by (simp add: sorts_by_def)
  from sorts_by_blocks_start_le[OF assms, of blocks] show "sorted_wrt start_le (srt blocks)" by simp
  show "mergeBlocks srt mode blocks = mergeAdjacent mode (srt blocks)"
    by (rule mergeBlocks_mergeAdjacent[where srt = srt and blocks = blocks,
          OF sorts_by_nonempty[OF assms ne]])
next
  assume "same_span b c \<and> NumStmt b = NumStmt c"
  then show "mergeBlocks srt mode [b, c] = Inr [b\<lparr>Count := combineCount mode (Count b) (Count c)\<rparr>]"
    using mergeBlocks_two_same[OF assms] by blast
next
  assume "same_span b c \<and> NumStmt b \<noteq> NumStmt c"
  then show "mergeBlocks srt mode [b, c] = Inl (Returned (InconsistentNumStmt (NumStmt b) (NumStmt c)))
       \<or> mergeBlocks srt mode [b, c] = Inl (Returned (InconsistentNumStmt (NumStmt c) (NumStmt b)))"
    using mergeBlocks_two_differ[OF assms] by blast
next
  assume "blocks \<noteq> [] \<and> ends_agree blocks"
  then show "if stmts_agree blocks
        then (\<exists>rs. mergeBlocks srt mode blocks = Inr rs \<and> distinct (map block_span rs)
                \<and> block_span ` set rs = block_span ` set blocks)
        else (\<exists>n k. mergeBlocks srt mode blocks = Inl (Returned (InconsistentNumStmt n k)))"
    using mergeBlocks_agree[OF assms] by blast
next
  assume "mergeSameLocationSamples srt files mode = Inr files'"
  then show "list_all2 (\<lambda>kp kp'. fst kp' = fst kp
          \<and> mergeBlocks srt mode (Blocks (snd kp)) = Inr (Blocks (snd kp'))
          \<and> snd kp' = (snd kp)\<lparr>Blocks := Blocks (snd kp')\<rparr>) files files'"
    by (rule mergeSame_each)
next
  assume "(k, p) \<in> set files \<and> mergeBlocks srt mode (Blocks p) = Inl f"
  then show "\<exists>f'. mergeSameLocationSamples srt files mode = Inl f'"
    using mergeSame_fails by blast
next
  assume "scanLines ign (scanned inp) ([], []) = Inr (mode, files) \<and> scan_err inp = None
        \<and> mergeSameLocationSamples srt files mode = Inl f"
  then show "ParseProfiles srt srtP ign inp = Inl f" by (simp add: ParseProfiles_def)
qed

text \<open>
  The theorem with the insertion sort: two blocks of one span in mode "count" and in mode
  "set", two with different statement counts, and three blocks of which the first and
  the last have the same span.
\<close>

theorem sort_and_merge_adjacent_witness:
  "mergeBlocks (insertionSort blocksByStart_Less) ''count''
     [\<lparr>StartLine = 3, StartCol = 1, EndLine = 4, EndCol = 2, NumStmt = 1, Count = 2\<rparr>,
      \<lparr>StartLine = 3, StartCol = 1, EndLine = 4, EndCol = 2, NumStmt = 1, Count = 3\<rparr>] =
     Inr [\<lparr>StartLine = 3, StartCol = 1, EndLine = 4, EndCol = 2, NumStmt = 1, Count = 5\<rparr>]
   \<and> mergeBlocks (insertionSort blocksByStart_Less) ''set''
     [\<lparr>StartLine = 3, StartCol = 1, EndLine = 4, EndCol = 2, NumStmt = 1, Count = 0\<rparr>,
      \<lparr>StartLine = 3, StartCol = 1, EndLine = 4, EndCol = 2, NumStmt = 1, Count = 1\<rparr>] =
     Inr [\<lparr>StartLine = 3, StartCol = 1, EndLine = 4, EndCol = 2, NumStmt = 1, Count = 1\<rparr>]
   \<and> mergeBlocks (insertionSort blocksByStart_Less) ''count''
     [\<lparr>StartLine = 3, StartCol = 1, EndLine = 4, EndCol = 2, NumStmt = 1, Count = 2\<rparr>,
      \<lparr>StartLine = 3, StartCol = 1, EndLine = 4, EndCol = 2, NumStmt = 2, Count = 3\<rparr>] =
     Inl (Returned (InconsistentNumStmt 1 2))
   \<and> ends_agree
     [\<lparr>StartLine = 3, StartCol = 1, EndLine = 4, EndCol = 2, NumStmt = 1, Count = 2\<rparr>,
      \<lparr>StartLine = 1, StartCol = 1, EndLine = 2, EndCol = 2, NumStmt = 1, Count = 1\<rparr>,
      \<lparr>StartLine = 3, StartCol = 1, EndLine = 4, EndCol = 2, NumStmt = 1, Count = 3\<rparr>]
   \<and> stmts_agree
     [\<lparr>StartLine = 3, StartCol = 1, EndLine = 4, EndCol = 2, NumStmt = 1, Count = 2\<rparr>,
      \<lparr>StartLine = 1, StartCol = 1, EndLine = 2, EndCol = 2, NumStmt = 1, Count = 1\<rparr>,
      \<lparr>StartLine = 3, StartCol = 1, EndLine = 4, EndCol = 2, NumStmt = 1, Count = 3\<rparr>]
   \<and> mergeBlocks (insertionSort blocksByStart_Less) ''count''
     [\<lparr>StartLine = 3, StartCol = 1, EndLine = 4, EndCol = 2, NumStmt = 1, Count = 2\<rparr>,
      \<lparr>StartLine = 1, StartCol = 1, EndLine = 2, EndCol = 2, NumStmt = 1, Count = 1\<rparr>,
      \<lparr>StartLine = 3, StartCol = 1, EndLine = 4, EndCol = 2, NumStmt = 1, Count = 3\<rparr>] =
     Inr [\<lparr>StartLine = 1, StartCol = 1, EndLine = 2, EndCol = 2, NumStmt = 1, Count = 1\<rparr>,
          \<lparr>StartLine = 3, StartCol = 1, EndLine = 4, EndCol = 2, NumStmt = 1, Count = 5\<rparr>]
   \<and> distinct (map block_span
         [\<lparr>StartLine = 1, StartCol = 1, EndLine = 2, EndCol = 2, NumStmt = 1, Count = 1\<rparr>,
          \<lparr>StartLine = 3, StartCol = 1, EndLine = 4, EndCol = 2, NumStmt = 1, Count = 5\<rparr>])"
proof -
  let ?srt = "insertionSort blocksByStart_Less"
  let ?a = "\<lparr>StartLine = 1, StartCol = 1, EndLine = 2, EndCol = 2, NumStmt = 1, Count = 1\<rparr>"
  let ?b0 = "\<lparr>StartLine = 3, StartCol = 1, EndLine = 4, EndCol = 2, NumStmt = 1, Count = 0\<rparr>"
  let ?b1 = "\<lparr>StartLine = 3, StartCol = 1, EndLine = 4, EndCol = 2, NumStmt = 1, Count = 1\<rparr>"
  let ?b2 = "\<lparr>StartLine = 3, StartCol = 1, EndLine = 4, EndCol = 2, NumStmt = 1, Count = 2\<rparr>"
  let ?b3 = "\<lparr>StartLine = 3, StartCol = 1, EndLine = 4, EndCol = 2, NumStmt = 1, Count = 3\<rparr>"
  let ?b5 = "\<lparr>StartLine = 3, StartCol = 1, EndLine = 4, EndCol = 2, NumStmt = 1, Count = 5\<rparr>"
  let ?c3 = "\<lparr>StartLine = 3, StartCol = 1, EndLine = 4, EndCol = 2, NumStmt = 2, Count = 3\<rparr>"
  have cc: "combineCount ''count'' 2 3 = 5" "combineCount ''set'' 0 1 = 1"
    by (simp_all add: combineCount_def wrap64_def)
  from sort_and_merge_adjacent[OF sorts_blocks, where mode = "''count''" and b = ?b2 and c = ?b3]
  have w1: "mergeBlocks ?srt ''count'' [?b2, ?b3] = Inr [?b5]"
    by (simp add: same_span_def cc)
  from sort_and_merge_adjacent[OF sorts_blocks, where mode = "''set''" and b = ?b0 and c = ?b1]
  have w2: "mergeBlocks ?srt ''set'' [?b0, ?b1] = Inr [?b1]"
    by (simp add: same_span_def cc)
  have w3: "mergeBlocks ?srt ''count'' [?b2, ?c3] = Inl (Returned (InconsistentNumStmt 1 2))"
    by (simp add: mergeBlocks_def mergeLoop.simps same_span_def Let_def insertionSort_def
          blocksByStart_Less_def)
  have ea: "ends_agree [?b2, ?a, ?b3]"
    by (simp add: ends_agree_def block_start_def block_end_def)
  have sa: "stmts_agree [?b2, ?a, ?b3]"
    by (simp add: stmts_agree_def)
  have w4: "mergeBlocks ?srt ''count'' [?b2, ?a, ?b3] = Inr [?a, ?b5]"
    by (simp add: mergeBlocks_def mergeLoop.simps same_span_def Let_def insertionSort_def
          blocksByStart_Less_def combineCount_def wrap64_def)
  from sort_and_merge_adjacent[OF sorts_blocks, where mode = "''count''" and blocks = "[?b2, ?a, ?b3]"]
    ea sa w4
  have d: "distinct (map block_span [?a, ?b5])" by simp
  from w1 w2 w3 ea sa w4 d show ?thesis by (intro conjI)
qed

text \<open>
  C4 as stated fails: two identical block lines do not always yield a single block. The
  sort compares start positions only, so a block that starts where they start and ends
  elsewhere may stay between them, and the merge looks at neighbours only. Here all
  three blocks start at 1.1, the insertion sort moves nothing, and the result holds the
  span 1.1,2.1 twice.
\<close>

theorem unmerged_duplicate_counterexample:
  "ParseProfiles (insertionSort blocksByStart_Less) (insertionSort byFileName_Less) (\<lambda>_ _. False)
     \<lparr>scanned = [''mode: count'', ''f.go:1.1,2.1 1 1'', ''f.go:1.1,3.1 1 1'', ''f.go:1.1,2.1 1 1''],
      scan_err = None\<rparr> =
   Inr [\<lparr>FileName = ''f.go'', Mode = ''count'',
         Blocks = [\<lparr>StartLine = 1, StartCol = 1, EndLine = 2, EndCol = 1, NumStmt = 1, Count = 1\<rparr>,
                   \<lparr>StartLine = 1, StartCol = 1, EndLine = 3, EndCol = 1, NumStmt = 1, Count = 1\<rparr>,
                   \<lparr>StartLine = 1, StartCol = 1, EndLine = 2, EndCol = 1, NumStmt = 1, Count = 1\<rparr>]\<rparr>]"
  by (simp add: ParseProfiles_def parseLine_def bad_mode_line_def HasPrefix_def
        FindStringSubmatch_def lineRe_def not_newline_def is_digit_def rune_width_def
        newBlock_def toInt_def Atoi_def digits_value_def digit_val_def max_int_def min_int_def
        and_then_def mergeBlocks_def mergeLoop.simps same_span_def combineCount_def Let_def
        generateSortedProfilesSlice_def insertionSort_def blocksByStart_Less_def byFileName_Less_def)

end
